theory Spec2Isabelle
  imports Main "HOL-Library.Word" "HOL-Library.Sublist"
begin

section \<open>Machine types and pin numbers\<close>

type_synonym int64_t = "64 word"
type_synonym uint32_t = "32 word"
type_synonym uint8_t = "8 word"

text \<open>Pin numbers of the doorbell programs (\<open>GPIO_NUM_21\<close>, \<open>GPIO_NUM_13\<close>).\<close>

definition BUTTON_GPIO :: uint32_t where
  "BUTTON_GPIO = 21"

definition BUZZER_GPIO :: uint32_t where
  "BUZZER_GPIO = 13"

text \<open>\<open>#define DEBOUNCE_TIME_US 50000\<close>; the comparison is made on \<open>int64_t\<close>.\<close>

definition DEBOUNCE_TIME_US :: int64_t where
  "DEBOUNCE_TIME_US = 50000"

section \<open>The event queue\<close>

text \<open>
  Modelled from the spec: the queue primitives \<open>xQueueCreate\<close>,
  \<open>xQueueSendFromISR\<close> and \<open>xQueueReceive\<close> belong to the real-time kernel and are
  not part of the sources. Section 4.3 of the specification describes them: a bounded
  FIFO whose capacity is fixed at construction, a push that never blocks and reports
  whether the event was taken, dropping the new event when the queue is full, and a pop
  that hands out the oldest event and suspends the caller on an empty queue (here: the
  value \<open>None\<close>).
\<close>

record 'a queue =
  capacity :: nat
  items :: "'a list"

definition xQueueCreate :: "nat \<Rightarrow> 'a queue" where
  "xQueueCreate uxQueueLength = \<lparr>capacity = uxQueueLength, items = []\<rparr>"

definition xQueueSendFromISR :: "'a queue \<Rightarrow> 'a \<Rightarrow> 'a queue \<times> bool" where
  "xQueueSendFromISR q x =
     (if length (items q) < capacity q then (q\<lparr>items := items q @ [x]\<rparr>, True)
      else (q, False))"

definition xQueueReceive :: "'a queue \<Rightarrow> ('a \<times> 'a queue) option" where
  "xQueueReceive q =
     (case items q of [] \<Rightarrow> None | x # rest \<Rightarrow> Some (x, q\<lparr>items := rest\<rparr>))"

section \<open>Doorbell with the level captured in the interrupt handler\<close>

text \<open>
  The program of \<open>src/unnamed/part_000\<close>. Its globals are the queue handle and
  \<open>last_interrupt_time\<close> (initially 0); the level last written to the buzzer pin is
  kept as well, since it is the observable output of \<open>gpio_task\<close>.
\<close>

record gpio_event_t =
  gpio_num :: uint32_t
  level :: uint32_t

record doorbell =
  last_interrupt_time :: int64_t
  gpio_evt_queue :: "gpio_event_t queue"
  buzzer :: uint32_t

text \<open>
  \<open>gpio_isr_handler\<close>. The handler reads the clock (\<open>esp_timer_get_time\<close>) and, only
  when the edge passes the debounce check, the pin (\<open>gpio_get_level\<close>); both readings
  are arguments here. The second component of the result is the event handed to
  \<open>xQueueSendFromISR\<close>, if any; the status that call returns is dropped, as in the
  source.
\<close>

definition gpio_isr_handler ::
    "uint32_t \<Rightarrow> int64_t \<Rightarrow> uint32_t \<Rightarrow> doorbell \<Rightarrow> doorbell \<times> gpio_event_t option" where
  "gpio_isr_handler arg current_time pin_level st =
     (if (current_time - last_interrupt_time st) <s DEBOUNCE_TIME_US then (st, None)
      else
        let st1 = st\<lparr>last_interrupt_time := current_time\<rparr>;
            evt = \<lparr>gpio_num = arg, level = pin_level\<rparr>
        in (st1\<lparr>gpio_evt_queue := fst (xQueueSendFromISR (gpio_evt_queue st1) evt)\<rparr>,
            Some evt))"

text \<open>
  One round of the loop of \<open>gpio_task\<close>: \<open>None\<close> while \<open>xQueueReceive\<close> waits on an
  empty queue.
\<close>

definition gpio_task :: "doorbell \<Rightarrow> doorbell option" where
  "gpio_task st =
     (case xQueueReceive (gpio_evt_queue st) of
        None \<Rightarrow> None
      | Some (evt, q) \<Rightarrow>
          Some (if level evt = 0 then st\<lparr>gpio_evt_queue := q, buzzer := 1\<rparr>
                else st\<lparr>gpio_evt_queue := q, buzzer := 0\<rparr>))"

text \<open>The state \<open>app_main\<close> leaves behind: buzzer off, a queue of ten events.\<close>

definition app_main :: doorbell where
  "app_main = \<lparr>last_interrupt_time = 0, gpio_evt_queue = xQueueCreate 10, buzzer = 0\<rparr>"

text \<open>
  A raw edge is the clock reading and the pin level at the interrupt. \<open>isr_run\<close> feeds
  a sequence of raw edges to the handler registered by \<open>app_main\<close> (argument
  \<open>BUTTON_GPIO\<close>) and collects, edge by edge, what the handler emitted.
\<close>

type_synonym raw_edge = "int64_t \<times> uint32_t"

fun isr_run :: "raw_edge list \<Rightarrow> doorbell \<Rightarrow> gpio_event_t option list \<times> doorbell" where
  "isr_run [] st = ([], st)"
| "isr_run ((t, l) # es) st =
     (let (st1, out) = gpio_isr_handler BUTTON_GPIO t l st;
          (outs, st2) = isr_run es st1
      in (out # outs, st2))"

text \<open>The timestamps of the edges that the handler accepted.\<close>

definition accepted_times :: "raw_edge list \<Rightarrow> doorbell \<Rightarrow> int64_t list" where
  "accepted_times es st =
     map (fst \<circ> fst) (filter (\<lambda>(e, out). out \<noteq> None) (zip es (fst (isr_run es st))))"

section \<open>Doorbell that reads the pin in the task\<close>

text \<open>
  The first program of
  \<open>src/tasks/lab1_task2_button_led_debounce/runs/2026-02-12_18-59-37/output/main/main.c\<close>.
  Its handler lets an edge through when the elapsed time is strictly greater than
  \<open>DEBOUNCE_TIME_US\<close> and queues the pin number only; \<open>gpio_task\<close> calls
  \<open>gpio_get_level\<close> itself when it takes the number out of the queue, so the level
  read at that later moment is an argument of the task round.
\<close>

record doorbell_185937 =
  last_interrupt_time_185937 :: int64_t
  gpio_evt_queue_185937 :: "uint32_t queue"
  buzzer_185937 :: uint32_t

definition gpio_isr_handler_185937 ::
    "uint32_t \<Rightarrow> int64_t \<Rightarrow> doorbell_185937 \<Rightarrow> doorbell_185937 \<times> uint32_t option" where
  "gpio_isr_handler_185937 arg current_time st =
     (if DEBOUNCE_TIME_US <s (current_time - last_interrupt_time_185937 st) then
        let st1 = st\<lparr>last_interrupt_time_185937 := current_time\<rparr>
        in (st1\<lparr>gpio_evt_queue_185937 :=
                   fst (xQueueSendFromISR (gpio_evt_queue_185937 st1) arg)\<rparr>,
            Some arg)
      else (st, None))"

definition gpio_task_185937 :: "uint32_t \<Rightarrow> doorbell_185937 \<Rightarrow> doorbell_185937 option" where
  "gpio_task_185937 pin_level_now st =
     (case xQueueReceive (gpio_evt_queue_185937 st) of
        None \<Rightarrow> None
      | Some (io_num, q) \<Rightarrow>
          Some (if pin_level_now = 0
                then st\<lparr>gpio_evt_queue_185937 := q, buzzer_185937 := 1\<rparr>
                else st\<lparr>gpio_evt_queue_185937 := q, buzzer_185937 := 0\<rparr>))"

definition app_main_185937 :: doorbell_185937 where
  "app_main_185937 =
     \<lparr>last_interrupt_time_185937 = 0, gpio_evt_queue_185937 = xQueueCreate 10,
      buzzer_185937 = 0\<rparr>"

section \<open>Doorbell that queues the level alone\<close>

text \<open>
  The program of the run \<open>2026-02-12_19-38-55\<close>: the same debounce check as in
  \<open>part_000\<close>; the handler reads \<open>BUTTON_GPIO\<close> and queues the level as an \<open>int\<close>.
\<close>

record doorbell_193855 =
  last_interrupt_time_193855 :: int64_t
  gpio_evt_queue_193855 :: "uint32_t queue"
  buzzer_193855 :: uint32_t

definition gpio_isr_handler_193855 ::
    "int64_t \<Rightarrow> uint32_t \<Rightarrow> doorbell_193855 \<Rightarrow> doorbell_193855 \<times> uint32_t option" where
  "gpio_isr_handler_193855 current_time pin_level st =
     (if (current_time - last_interrupt_time_193855 st) <s DEBOUNCE_TIME_US then (st, None)
      else
        let st1 = st\<lparr>last_interrupt_time_193855 := current_time\<rparr>;
            button_state = pin_level
        in (st1\<lparr>gpio_evt_queue_193855 :=
                   fst (xQueueSendFromISR (gpio_evt_queue_193855 st1) button_state)\<rparr>,
            Some button_state))"

definition buzzer_control_task :: "doorbell_193855 \<Rightarrow> doorbell_193855 option" where
  "buzzer_control_task st =
     (case xQueueReceive (gpio_evt_queue_193855 st) of
        None \<Rightarrow> None
      | Some (button_state, q) \<Rightarrow>
          Some (if button_state = 0
                then st\<lparr>gpio_evt_queue_193855 := q, buzzer_193855 := 1\<rparr>
                else st\<lparr>gpio_evt_queue_193855 := q, buzzer_193855 := 0\<rparr>))"

section \<open>Calls into the drivers\<close>

text \<open>
  The button-LED-buzzer programs act through driver calls. Each call the code makes is
  recorded, with its arguments, in the order the code makes it; what a call returns is
  an argument of the function that makes it. \<open>VTaskDelay_ms n\<close> stands for
  \<open>vTaskDelay(pdMS_TO_TICKS(n))\<close>. A handle is the pointer value; \<open>None\<close> is
  \<open>NULL\<close>.
\<close>

type_synonym handle = nat

datatype call =
    Gpio_set_level uint32_t uint32_t
  | VTaskDelay_ms nat
  | VTaskNotifyGiveFromISR handle
  | Gptimer_new_timer
  | Gptimer_register_event_callbacks handle
  | Gptimer_set_alarm_action handle "64 word"
  | Gptimer_enable handle
  | Gptimer_start handle
  | Gptimer_stop handle
  | Gptimer_disable handle
  | Gptimer_del_timer handle
  | XTimerStop "handle option"
  | XTimerChangePeriod "handle option" nat
  | XTimerStart "handle option"

definition LED_GPIO :: uint32_t where
  "LED_GPIO = 9"

definition BUZZER_DURATION_MS :: nat where
  "BUZZER_DURATION_MS = 100"

section \<open>Button, LED and buzzer with a hardware timer\<close>

text \<open>
  The third program of the same \<open>main.c\<close> (its lines 208 to 381): the interrupt handler
  debounces on the tick clock and advances \<open>button_press_count\<close>; \<open>main_task\<close> sounds
  the buzzer and sets the LED timer up again for the mode the counter names.
\<close>

definition timer_periods :: "64 word list" where
  "timer_periods = [500000, 250000, 125000, 0]"

definition debounce_time_ms :: uint32_t where
  "debounce_time_ms = 50"

record blinker =
  led_timer :: "handle option"
  button_press_count :: uint8_t
  last_interrupt_time_ms :: uint32_t
  main_task_handle :: "handle option"
  notification :: uint32_t
  calls :: "call list"

definition log_calls :: "call list \<Rightarrow> blinker \<Rightarrow> blinker" where
  "log_calls cs st = st\<lparr>calls := calls st @ cs\<rparr>"

text \<open>
  What the five calls under \<open>ESP_ERROR_CHECK\<close> return: a handle or an error for
  \<open>gptimer_new_timer\<close>, success or an error for the others. \<open>ESP_ERROR_CHECK\<close> aborts
  the program on an error: the result \<open>Inl st\<close> is the state at the abort.
\<close>

record gptimer_env =
  new_timer_ret :: "handle option"
  register_ret :: bool
  set_alarm_ret :: bool
  enable_ret :: bool
  start_ret :: bool

definition configure_led_timer :: "gptimer_env \<Rightarrow> uint8_t \<Rightarrow> blinker \<Rightarrow> blinker + blinker" where
  "configure_led_timer env mode st0 =
     (let st2 = (case led_timer st0 of
                   None \<Rightarrow> st0
                 | Some old \<Rightarrow>
                     let st1 = (log_calls
                                  [Gptimer_stop old, Gptimer_disable old, Gptimer_del_timer old]
                                  st0)\<lparr>led_timer := None\<rparr>
                     in log_calls [Gpio_set_level LED_GPIO 0] st1)
      in if mode < 3 then
           (let st3 = log_calls [Gptimer_new_timer] st2
            in case new_timer_ret env of
                 None \<Rightarrow> Inl st3
               | Some h \<Rightarrow>
                   let st4 = log_calls [Gptimer_register_event_callbacks h]
                               (st3\<lparr>led_timer := Some h\<rparr>)
                   in if \<not> register_ret env then Inl st4
                      else
                        let st5 = log_calls
                                    [Gptimer_set_alarm_action h (timer_periods ! unat mode)] st4
                        in if \<not> set_alarm_ret env then Inl st5
                           else
                             let st6 = log_calls [Gptimer_enable h] st5
                             in if \<not> enable_ret env then Inl st6
                                else
                                  let st7 = log_calls [Gptimer_start h] st6
                                  in if \<not> start_ret env then Inl st7 else Inr st7)
         else Inr st2)"

definition activate_buzzer :: "blinker \<Rightarrow> blinker" where
  "activate_buzzer st =
     log_calls [Gpio_set_level BUZZER_GPIO 1, VTaskDelay_ms BUZZER_DURATION_MS,
                Gpio_set_level BUZZER_GPIO 0] st"

text \<open>
  \<open>button_isr_handler\<close>. The tick count (\<open>xTaskGetTickCountFromISR\<close>), the constant
  \<open>portTICK_PERIOD_MS\<close> of the kernel configuration and the result of
  \<open>xTaskGetHandle("main_task")\<close> are arguments. \<open>button_press_count\<close> is a
  \<open>uint8_t\<close>: the sum and the remainder are computed on \<open>int\<close> and stored back.
\<close>

definition button_isr_handler ::
    "uint32_t \<Rightarrow> uint32_t \<Rightarrow> handle option \<Rightarrow> blinker \<Rightarrow> blinker" where
  "button_isr_handler tick_count portTICK_PERIOD_MS task_lookup st =
     (let current_time = tick_count * portTICK_PERIOD_MS
      in if debounce_time_ms < current_time - last_interrupt_time_ms st then
           let st1 = st\<lparr>last_interrupt_time_ms := current_time\<rparr>;
               st2 = st1\<lparr>button_press_count :=
                           of_nat ((unat (button_press_count st1) + 1) mod 4)\<rparr>;
               st3 = (if main_task_handle st2 = None
                      then st2\<lparr>main_task_handle := task_lookup\<rparr> else st2)
           in (case main_task_handle st3 of
                 None \<Rightarrow> st3
               | Some h \<Rightarrow>
                   (log_calls [VTaskNotifyGiveFromISR h] st3)
                     \<lparr>notification := notification st3 + 1\<rparr>)
         else st)"

text \<open>
  Modelled from the spec: \<open>vTaskNotifyGiveFromISR\<close> and \<open>ulTaskNotifyTake\<close> are kernel
  code outside the sources. Following Section 4.4 of the specification (the consumer
  blocks until the producer has signalled, then handles the event), a give adds one to
  the notification value of the task, and a take with \<open>pdTRUE\<close> waits while the value is
  zero (\<open>None\<close>) and clears it otherwise.

  One round of the loop of \<open>main_task\<close>.
\<close>

definition main_task :: "gptimer_env \<Rightarrow> blinker \<Rightarrow> (blinker + blinker) option" where
  "main_task env st =
     (if notification st = 0 then None
      else
        let st1 = activate_buzzer (st\<lparr>notification := 0\<rparr>)
        in Some (configure_led_timer env (button_press_count st1) st1))"

text \<open>
  The globals as initialised, and the two calls of \<open>app_main\<close> that set the LED and the
  buzzer low.
\<close>

definition app_main_blinker :: blinker where
  "app_main_blinker =
     \<lparr>led_timer = None, button_press_count = 0, last_interrupt_time_ms = 0,
      main_task_handle = None, notification = 0,
      calls = [Gpio_set_level LED_GPIO 0, Gpio_set_level BUZZER_GPIO 0]\<rparr>"

text \<open>
  A press, as the program meets it: the tick count at the interrupt, the tick period,
  what the task lookup returns, and what the timer driver returns in the round of
  \<open>main_task\<close> that follows. \<open>run_presses\<close> lets \<open>main_task\<close> run after each interrupt;
  an abort ends the run.
\<close>

record press =
  tick_count :: uint32_t
  tick_period_ms :: uint32_t
  task_lookup :: "handle option"
  driver :: gptimer_env

definition press_time :: "press \<Rightarrow> uint32_t" where
  "press_time p = tick_count p * tick_period_ms p"

fun run_presses :: "press list \<Rightarrow> blinker \<Rightarrow> blinker + blinker" where
  "run_presses [] st = Inr st"
| "run_presses (p # ps) st =
     (let st1 = button_isr_handler (tick_count p) (tick_period_ms p) (task_lookup p) st
      in case main_task (driver p) st1 of
           None \<Rightarrow> run_presses ps st1
         | Some (Inl aborted) \<Rightarrow> Inl aborted
         | Some (Inr st2) \<Rightarrow> run_presses ps st2)"

text \<open>
  What the recorded calls say about the LED alarm: the period last given to
  \<open>gptimer_set_alarm_action\<close>, and \<open>None\<close> once the timer has been deleted.
\<close>

fun alarm_after :: "64 word option \<Rightarrow> call \<Rightarrow> 64 word option" where
  "alarm_after a (Gptimer_set_alarm_action h p) = Some p"
| "alarm_after a (Gptimer_del_timer h) = None"
| "alarm_after a c = a"

definition programmed_period :: "call list \<Rightarrow> 64 word option" where
  "programmed_period cs = foldl alarm_after None cs"

section \<open>Button, LED and buzzer with a software timer\<close>

text \<open>
  The program of \<open>src/unnamed/part_001\<close>. \<open>app_main\<close> creates \<open>led_timer\<close> once
  (\<open>xTimerCreate\<close>); \<open>button_task\<close> keeps that handle and changes its period.
\<close>

record soft_blinker =
  soft_led_timer :: "handle option"
  button_state :: uint8_t
  led_state :: bool
  soft_calls :: "call list"

definition soft_log :: "call list \<Rightarrow> soft_blinker \<Rightarrow> soft_blinker" where
  "soft_log cs st = st\<lparr>soft_calls := soft_calls st @ cs\<rparr>"

text \<open>
  The loop that waits for the release polls the pin every 10 ms. The readings of the pin
  are a list; the result is the number of delays made, or \<open>None\<close> when the list ends
  with the button still held.
\<close>

fun wait_release :: "uint32_t list \<Rightarrow> nat option" where
  "wait_release [] = None"
| "wait_release (l # ls) =
     (if l = 1 then map_option Suc (wait_release ls) else Some 0)"

text \<open>
  One round of the loop of \<open>button_task\<close>, from the return of \<open>ulTaskNotifyTake\<close>.
  \<open>levels\<close> are the successive results of \<open>gpio_get_level(BUTTON_GPIO)\<close> and
  \<open>timer_active\<close> is the result of \<open>xTimerIsTimerActive\<close>.
\<close>

definition button_task :: "uint32_t list \<Rightarrow> bool \<Rightarrow> soft_blinker \<Rightarrow> soft_blinker option" where
  "button_task levels timer_active st0 =
     (let st1 = soft_log [VTaskDelay_ms 50] st0
      in case levels of
           [] \<Rightarrow> None
         | l # ls \<Rightarrow>
             if l = 1 then
               let st2 = soft_log [Gpio_set_level BUZZER_GPIO 1,
                                   VTaskDelay_ms BUZZER_DURATION_MS,
                                   Gpio_set_level BUZZER_GPIO 0] st1;
                   t = soft_led_timer st2;
                   st3 = (if t \<noteq> None \<and> timer_active then soft_log [XTimerStop t] st2
                          else st2);
                   st4 = (if button_state st3 = 0 then
                            soft_log [XTimerChangePeriod t 500, XTimerStart t] st3
                          else if button_state st3 = 1 then
                            soft_log [XTimerChangePeriod t 250, XTimerStart t] st3
                          else if button_state st3 = 2 then
                            soft_log [XTimerChangePeriod t 125, XTimerStart t] st3
                          else if button_state st3 = 3 then
                            (soft_log [Gpio_set_level LED_GPIO 0] st3)\<lparr>led_state := False\<rparr>
                          else st3);
                   st5 = st4\<lparr>button_state := of_nat ((unat (button_state st4) + 1) mod 4)\<rparr>
               in (case wait_release ls of
                     None \<Rightarrow> None
                   | Some n \<Rightarrow>
                       Some (soft_log (replicate n (VTaskDelay_ms 10) @ [VTaskDelay_ms 50])
                               st5))
             else Some st1)"


section \<open>The mode counter\<close>

text \<open>
  Both button-LED-buzzer programs advance their counter with the same expression,
  \<open>(button_press_count + 1) % 4\<close> and \<open>(button_state + 1) % 4\<close> on a \<open>uint8_t\<close>.
\<close>

definition advance :: "uint8_t \<Rightarrow> uint8_t" where
  "advance c = of_nat ((unat c + 1) mod 4)"

section \<open>Reading a sequence of calls\<close>

text \<open>
  The calls that give an alarm a period or set it going, and the order in which a
  reconfiguration makes its calls: \<open>released_first old cs\<close> holds when the calls \<open>cs\<close>
  stop, disable and delete the alarm \<open>old\<close>, in this order, before the first call that
  programs or starts an alarm (or when no call of \<open>cs\<close> does so).
\<close>

fun reprograms :: "call \<Rightarrow> bool" where
  "reprograms (Gptimer_set_alarm_action h p) = True"
| "reprograms (Gptimer_enable h) = True"
| "reprograms (Gptimer_start h) = True"
| "reprograms (XTimerChangePeriod t p) = True"
| "reprograms (XTimerStart t) = True"
| "reprograms c = False"

fun in_order :: "'a list \<Rightarrow> 'a list \<Rightarrow> bool" where
  "in_order [] ys = True"
| "in_order (x # xs) [] = False"
| "in_order (x # xs) (y # ys) = (if x = y then in_order xs ys else in_order (x # xs) ys)"

definition released_first :: "handle \<Rightarrow> call list \<Rightarrow> bool" where
  "released_first old cs =
     (let lead = takeWhile (\<lambda>c. \<not> reprograms c) cs
      in lead = cs \<or>
         in_order [Gptimer_stop old, Gptimer_disable old, Gptimer_del_timer old] lead)"

text \<open>
  The call sequences of the hardware-timer program, named for reading: what
  \<open>configure_led_timer\<close> does to a timer that exists, what it does to set a new one up
  when every call succeeds, and the pulse of \<open>activate_buzzer\<close>.
\<close>

definition release_calls :: "handle option \<Rightarrow> call list" where
  "release_calls t =
     (case t of
        None \<Rightarrow> []
      | Some old \<Rightarrow>
          [Gptimer_stop old, Gptimer_disable old, Gptimer_del_timer old,
           Gpio_set_level LED_GPIO 0])"

definition setup_calls :: "handle \<Rightarrow> uint8_t \<Rightarrow> call list" where
  "setup_calls h mode =
     [Gptimer_new_timer, Gptimer_register_event_callbacks h,
      Gptimer_set_alarm_action h (timer_periods ! unat mode), Gptimer_enable h,
      Gptimer_start h]"

definition pulse_calls :: "call list" where
  "pulse_calls =
     [Gpio_set_level BUZZER_GPIO 1, VTaskDelay_ms BUZZER_DURATION_MS,
      Gpio_set_level BUZZER_GPIO 0]"

text \<open>The calls a function added to the record.\<close>

definition emitted :: "blinker \<Rightarrow> blinker + blinker \<Rightarrow> call list" where
  "emitted st r =
     drop (length (calls st)) (calls (case r of Inl a \<Rightarrow> a | Inr b \<Rightarrow> b))"

section \<open>Runs of the event queue\<close>

text \<open>
  A run of the queue is a sequence of pushes and pops. \<open>queue_run\<close> returns the pushes
  that succeeded, the events the pops delivered (a pop on an empty queue delivers
  nothing), and the queue at the end.
\<close>

datatype 'a queue_op = Push 'a | Pop

fun queue_run :: "'a queue_op list \<Rightarrow> 'a queue \<Rightarrow> 'a list \<times> 'a list \<times> 'a queue" where
  "queue_run [] q = ([], [], q)"
| "queue_run (Push x # ops) q =
     (let (q1, ok) = xQueueSendFromISR q x;
          (pushed, popped, q2) = queue_run ops q1
      in (if ok then x # pushed else pushed, popped, q2))"
| "queue_run (Pop # ops) q =
     (case xQueueReceive q of
        None \<Rightarrow> queue_run ops q
      | Some (x, q1) \<Rightarrow>
          let (pushed, popped, q2) = queue_run ops q1
          in (pushed, x # popped, q2))"

section \<open>Shapes of input sequences\<close>

text \<open>
  Timestamps are read as signed numbers of microseconds. \<open>spaced ts\<close>: each timestamp
  comes at least 50,000 after the one before it. \<open>within_window ts\<close>: the clock does not
  go back and any two of the timestamps, not only neighbours, are less than 50,000
  apart.
\<close>

fun spaced :: "int list \<Rightarrow> bool" where
  "spaced [] = True"
| "spaced [t] = True"
| "spaced (t # u # ts) = (t + 50000 \<le> u \<and> spaced (u # ts))"

fun within_window :: "int list \<Rightarrow> bool" where
  "within_window [] = True"
| "within_window (t # ts) = (list_all (\<lambda>u. t \<le> u \<and> u - t < 50000) ts \<and> within_window ts)"

text \<open>
  For the hardware-timer program: every press of the sequence passes the debounce check
  of \<open>button_isr_handler\<close>, and the task lookup and the timer driver succeed.
\<close>

fun all_accepted :: "uint32_t \<Rightarrow> press list \<Rightarrow> bool" where
  "all_accepted last_time [] = True"
| "all_accepted last_time (p # ps) =
     (debounce_time_ms < press_time p - last_time \<and> all_accepted (press_time p) ps)"

definition driver_ok :: "gptimer_env \<Rightarrow> bool" where
  "driver_ok env =
     (new_timer_ret env \<noteq> None \<and> register_ret env \<and> set_alarm_ret env \<and>
      enable_ret env \<and> start_ret env)"

definition press_ok :: "press \<Rightarrow> bool" where
  "press_ok p = (task_lookup p \<noteq> None \<and> driver_ok (driver p))"

section \<open>The debounce check on timestamps of the clock\<close>

text \<open>
  The clock counts microseconds from start-up upwards, so its readings are not negative
  as \<open>int64_t\<close>. On such readings the subtraction of the handler does not overflow
  and the check compares the true elapsed time with 50,000.
\<close>

lemma sint_diff_nonneg:
  fixes a b :: "64 word"
  assumes "0 \<le> sint a" "0 \<le> sint b"
  shows "sint (a - b) = sint a - sint b"
proof -
  have "sint a < 2 ^ 63" "sint b < 2 ^ 63"
    using sint_lt [of a] sint_lt [of b] by simp_all
  with assms have "- (2 ^ 63) \<le> sint a - sint b" "sint a - sint b < 2 ^ 63"
    by simp_all
  then show ?thesis
    by (simp add: sint_word_ariths signed_take_bit_int_eq_self)
qed

lemma debounce_check:
  fixes a b :: "64 word"
  assumes "0 \<le> sint a" "0 \<le> sint b"
  shows "((a - b) <s DEBOUNCE_TIME_US) = (sint a - sint b < 50000)"
  using sint_diff_nonneg [OF assms] by (simp add: word_sless_alt DEBOUNCE_TIME_US_def)

lemma handler_reject:
  assumes "0 \<le> sint (last_interrupt_time st)" "0 \<le> sint t"
    "sint t - sint (last_interrupt_time st) < 50000"
  shows "gpio_isr_handler arg t l st = (st, None)"
  using assms by (simp add: gpio_isr_handler_def debounce_check)

lemma handler_accept:
  assumes "0 \<le> sint (last_interrupt_time st)" "0 \<le> sint t"
    "\<not> sint t - sint (last_interrupt_time st) < 50000"
  shows "gpio_isr_handler arg t l st =
      (st\<lparr>last_interrupt_time := t,
          gpio_evt_queue := fst (xQueueSendFromISR (gpio_evt_queue st) \<lparr>gpio_num = arg, level = l\<rparr>)\<rparr>,
       Some \<lparr>gpio_num = arg, level = l\<rparr>)"
  using assms by (simp add: gpio_isr_handler_def debounce_check Let_def)

lemma accepted_times_Nil: "accepted_times [] st = []"
  by (simp add: accepted_times_def)

lemma accepted_times_Cons:
  "accepted_times ((t, l) # es) st =
     (if snd (gpio_isr_handler BUTTON_GPIO t l st) = None then [] else [t]) @
     accepted_times es (fst (gpio_isr_handler BUTTON_GPIO t l st))"
  by (simp add: accepted_times_def split_beta Let_def)

lemma isr_run_Cons:
  "isr_run ((t, l) # es) st =
     (snd (gpio_isr_handler BUTTON_GPIO t l st) #
        fst (isr_run es (fst (gpio_isr_handler BUTTON_GPIO t l st))),
      snd (isr_run es (fst (gpio_isr_handler BUTTON_GPIO t l st))))"
  by (simp add: split_beta Let_def)

lemma spaced_run:
  assumes "0 \<le> sint (last_interrupt_time st)"
    and "spaced (sint (last_interrupt_time st) # map (\<lambda>e. sint (fst e)) es)"
  shows "fst (isr_run es st) = map (\<lambda>(t, l). Some \<lparr>gpio_num = BUTTON_GPIO, level = l\<rparr>) es"
  using assms
proof (induction es arbitrary: st)
  case Nil
  then show ?case by simp
next
  case (Cons e es)
  obtain t l where e: "e = (t, l)" by (cases e)
  from Cons.prems e have step: "sint (last_interrupt_time st) + 50000 \<le> sint t"
    and rest: "spaced (sint t # map (\<lambda>e. sint (fst e)) es)"
    by simp_all
  from step Cons.prems(1) have t0: "0 \<le> sint t" by simp
  from step have acc: "\<not> sint t - sint (last_interrupt_time st) < 50000" by simp
  note h = handler_accept [OF Cons.prems(1) t0 acc, of BUTTON_GPIO l]
  have "fst (isr_run es (fst (gpio_isr_handler BUTTON_GPIO t l st))) =
      map (\<lambda>(t, l). Some \<lparr>gpio_num = BUTTON_GPIO, level = l\<rparr>) es"
    by (rule Cons.IH) (simp_all add: h t0 rest)
  then show ?case
    unfolding e isr_run_Cons by (simp add: h)
qed

lemma burst_all_rejected:
  assumes "0 \<le> sint (last_interrupt_time st)"
    and "list_all (\<lambda>u. sint (last_interrupt_time st) \<le> u \<and> u - sint (last_interrupt_time st) < 50000)
           (map (\<lambda>e. sint (fst e)) es)"
  shows "accepted_times es st = []"
  using assms
proof (induction es)
  case Nil
  then show ?case by (simp add: accepted_times_Nil)
next
  case (Cons e es)
  obtain t l where e: "e = (t, l)" by (cases e)
  from Cons.prems e have t: "0 \<le> sint t" "sint t - sint (last_interrupt_time st) < 50000"
    by simp_all
  note h = handler_reject [OF Cons.prems(1) t, of BUTTON_GPIO l]
  from Cons show ?case
    unfolding e accepted_times_Cons by (simp add: h)
qed

lemma burst_at_most_one:
  assumes "0 \<le> sint (last_interrupt_time st)"
    and "list_all (\<lambda>u. sint (last_interrupt_time st) \<le> u) (map (\<lambda>e. sint (fst e)) es)"
    and "within_window (map (\<lambda>e. sint (fst e)) es)"
  shows "length (accepted_times es st) \<le> 1"
  using assms
proof (induction es)
  case Nil
  then show ?case by (simp add: accepted_times_Nil)
next
  case (Cons e es)
  obtain t l where e: "e = (t, l)" by (cases e)
  from Cons.prems e have t0: "0 \<le> sint t" by simp
  show ?case
  proof (cases "sint t - sint (last_interrupt_time st) < 50000")
    case True
    note h = handler_reject [OF Cons.prems(1) t0 True, of BUTTON_GPIO l]
    from Cons show ?thesis
      unfolding e accepted_times_Cons by (simp add: h)
  next
    case False
    note h = handler_accept [OF Cons.prems(1) t0 False, of BUTTON_GPIO l]
    have "accepted_times es (fst (gpio_isr_handler BUTTON_GPIO t l st)) = []"
      using Cons.prems(3) t0 unfolding e
      by (intro burst_all_rejected) (simp_all add: h)
    then show ?thesis
      unfolding e accepted_times_Cons by (simp add: h)
  qed
qed

lemma spaced_accepted_times:
  assumes "0 \<le> sint (last_interrupt_time st)"
    and "spaced (sint (last_interrupt_time st) # map (\<lambda>e. sint (fst e)) es)"
  shows "accepted_times es st = map fst es"
  using assms
proof (induction es arbitrary: st)
  case Nil
  then show ?case by (simp add: accepted_times_Nil)
next
  case (Cons e es)
  obtain t l where e: "e = (t, l)" by (cases e)
  from Cons.prems e have step: "sint (last_interrupt_time st) + 50000 \<le> sint t"
    and rest: "spaced (sint t # map (\<lambda>e. sint (fst e)) es)"
    by simp_all
  from step Cons.prems(1) have t0: "0 \<le> sint t" by simp
  from step have acc: "\<not> sint t - sint (last_interrupt_time st) < 50000" by simp
  note h = handler_accept [OF Cons.prems(1) t0 acc, of BUTTON_GPIO l]
  have "accepted_times es (fst (gpio_isr_handler BUTTON_GPIO t l st)) = map fst es"
    by (rule Cons.IH) (simp_all add: h t0 rest)
  then show ?case
    unfolding e accepted_times_Cons by (simp add: h)
qed

lemmas doorbell_eval =
  accepted_times_def gpio_isr_handler_def app_main_def xQueueCreate_def
  xQueueSendFromISR_def DEBOUNCE_TIME_US_def BUTTON_GPIO_def Let_def word_sless_alt

section \<open>Claims about the debounce filter\<close>

text \<open>
  C1, as stated: the first raw edge is accepted whatever its timestamp, so that of the
  edges at 0, 10,000 and 60,000 exactly those at 0 and 60,000 are accepted. The handler
  starts from \<open>last_interrupt_time = 0\<close> and rejects the edge at 0: the accepted
  timestamps are not 0 and 60,000.
\<close>

theorem first_edge_counterexample:
  "accepted_times [(0, 0), (10000, 0), (60000, 0)] app_main \<noteq> [0, 60000]"
  by (simp add: doorbell_eval)

text \<open>
  C1, amended: after \<open>app_main\<close> the last accepted timestamp is 0, so the first raw
  edge is rejected exactly when its timestamp is below 50,000. Of the edges at 0, 10,000
  and 60,000 only the edge at 60,000 is accepted; of edges at 50,000, 60,000 and
  110,000 those at 50,000 and 110,000 are.
\<close>

theorem first_edge_after_boot:
  "(snd (gpio_isr_handler arg t l app_main) = None) = (t <s 50000) \<and>
   accepted_times [(0, l0), (10000, l1), (60000, l2)] app_main = [60000] \<and>
   accepted_times [(50000, l0), (60000, l1), (110000, l2)] app_main = [50000, 110000]"
  by (simp add: doorbell_eval)

text \<open>
  C2, as stated: whenever consecutive edges are at least 50,000 apart, every edge yields
  an event. The edges at 0 and 50,000 are so spaced, yet the handler started by
  \<open>app_main\<close> does not emit an event for each of them.
\<close>

theorem spaced_edges_counterexample:
  "spaced [0, 50000] \<and>
   fst (isr_run [(0, 0), (50000, 0)] app_main) \<noteq>
     [Some \<lparr>gpio_num = BUTTON_GPIO, level = 0\<rparr>, Some \<lparr>gpio_num = BUTTON_GPIO, level = 0\<rparr>]"
  by (simp add: doorbell_eval)

text \<open>
  C2, amended: when the first edge comes at least 50,000 after the last accepted
  timestamp (0 after \<open>app_main\<close>) and each later edge at least 50,000 after the edge
  before it, a spacing of exactly 50,000 included, the handler of \<open>part_000\<close> emits one
  event per raw edge, in arrival order and with the level of that edge; and it discards
  an edge if and only if the time elapsed since the last accepted timestamp is strictly
  less than 50,000.
\<close>

theorem spaced_edges_all_accepted:
  assumes "0 \<le> sint (last_interrupt_time st)"
    and "spaced (sint (last_interrupt_time st) # map (\<lambda>e. sint (fst e)) es)"
  shows "fst (isr_run es st) =
           map (\<lambda>(t, l). Some \<lparr>gpio_num = BUTTON_GPIO, level = l\<rparr>) es \<and>
         accepted_times es st = map fst es \<and>
         (\<forall>arg t l. 0 \<le> sint t \<longrightarrow>
            (snd (gpio_isr_handler arg t l st) = None) =
            (sint t - sint (last_interrupt_time st) < 50000))"
proof (intro conjI allI impI)
  show "fst (isr_run es st) =
      map (\<lambda>(t, l). Some \<lparr>gpio_num = BUTTON_GPIO, level = l\<rparr>) es"
    using assms by (rule spaced_run)
  show "accepted_times es st = map fst es"
    using assms by (rule spaced_accepted_times)
next
  fix arg :: uint32_t and t :: int64_t and l :: uint32_t
  assume "0 \<le> sint t"
  with assms(1) show "(snd (gpio_isr_handler arg t l st) = None) =
      (sint t - sint (last_interrupt_time st) < 50000)"
    by (simp add: gpio_isr_handler_def debounce_check Let_def)
qed

theorem spaced_edges_all_accepted_witness:
  "0 \<le> sint (last_interrupt_time app_main) \<and>
   spaced (sint (last_interrupt_time app_main) #
           map (\<lambda>e. sint (fst e)) ([(50000, 0), (100000, 1)] :: raw_edge list)) \<and>
   fst (isr_run [(50000, 0), (100000, 1)] app_main) =
     [Some \<lparr>gpio_num = BUTTON_GPIO, level = 0\<rparr>, Some \<lparr>gpio_num = BUTTON_GPIO, level = 1\<rparr>] \<and>
   accepted_times [(50000, 0), (100000, 1)] app_main = [50000, 100000] \<and>
   (snd (gpio_isr_handler BUTTON_GPIO 49999 0 app_main) = None) =
     (sint (49999 :: 64 word) - sint (last_interrupt_time app_main) < 50000)"
proof -
  have h1: "0 \<le> sint (last_interrupt_time app_main)"
    by (simp add: app_main_def)
  have h2: "spaced (sint (last_interrupt_time app_main) #
      map (\<lambda>e. sint (fst e)) ([(50000, 0), (100000, 1)] :: raw_edge list))"
    by (simp add: app_main_def)
  have h3: "0 \<le> sint (49999 :: 64 word)"
    by simp
  from spaced_edges_all_accepted [OF h1 h2] h1 h2 h3 show ?thesis
    by (simp del: isr_run.simps)
qed

text \<open>
  C6: when the edges of a sequence arrive in clock order and any two of them are less
  than 50,000 apart, the handler accepts at most one of them, however many there are.
  The state may be any the handler can be in before the first of these edges: its last
  accepted timestamp is a clock reading not later than them.
\<close>

theorem burst_at_most_one_event:
  assumes "0 \<le> sint (last_interrupt_time st)"
    and "list_all (\<lambda>u. sint (last_interrupt_time st) \<le> u) (map (\<lambda>e. sint (fst e)) es)"
    and "within_window (map (\<lambda>e. sint (fst e)) es)"
  shows "length (accepted_times es st) \<le> 1"
  using assms by (rule burst_at_most_one)

theorem burst_at_most_one_event_witness:
  "0 \<le> sint (last_interrupt_time app_main) \<and>
   list_all (\<lambda>u. sint (last_interrupt_time app_main) \<le> u)
     (map (\<lambda>e. sint (fst e)) ([(60000, 0), (70000, 1), (80000, 0), (109999, 1)] :: raw_edge list)) \<and>
   within_window (map (\<lambda>e. sint (fst e)) ([(60000, 0), (70000, 1), (80000, 0), (109999, 1)] :: raw_edge list)) \<and>
   length (accepted_times [(60000, 0), (70000, 1), (80000, 0), (109999, 1)] app_main) \<le> 1"
proof -
  have h1: "0 \<le> sint (last_interrupt_time app_main)"
    by (simp add: app_main_def)
  have h2: "list_all (\<lambda>u. sint (last_interrupt_time app_main) \<le> u)
      (map (\<lambda>e. sint (fst e)) ([(60000, 0), (70000, 1), (80000, 0), (109999, 1)] :: raw_edge list))"
    by (simp add: app_main_def)
  have h3: "within_window
      (map (\<lambda>e. sint (fst e)) ([(60000, 0), (70000, 1), (80000, 0), (109999, 1)] :: raw_edge list))"
    by simp
  from burst_at_most_one_event [OF h1 h2 h3] h1 h2 h3 show ?thesis
    by blast
qed

text \<open>
  C9: when the queue is full at an accepted edge, the push fails and the handler changes
  nothing but \<open>last_interrupt_time\<close>, which it sets to the timestamp of the edge whose
  event is lost: the queue is as before and the state has no field that counts the loss.
  An edge that follows within 50,000 of the lost one is rejected.
\<close>

theorem full_queue_keeps_debounce_update:
  assumes "\<not> length (items (gpio_evt_queue st)) < capacity (gpio_evt_queue st)"
    and "0 \<le> sint (last_interrupt_time st)"
    and "sint (last_interrupt_time st) + 50000 \<le> sint t"
    and "sint t \<le> sint t'"
    and "sint t' - sint t < 50000"
  shows "snd (xQueueSendFromISR (gpio_evt_queue st) \<lparr>gpio_num = arg, level = l\<rparr>) = False \<and>
         gpio_isr_handler arg t l st =
           (st\<lparr>last_interrupt_time := t\<rparr>, Some \<lparr>gpio_num = arg, level = l\<rparr>) \<and>
         gpio_isr_handler arg' t' l' (st\<lparr>last_interrupt_time := t\<rparr>) =
           (st\<lparr>last_interrupt_time := t\<rparr>, None)"
proof -
  from assms(2,3) have t0: "0 \<le> sint t"
    by simp
  from assms(3) have acc: "\<not> sint t - sint (last_interrupt_time st) < 50000"
    by simp
  have push: "xQueueSendFromISR (gpio_evt_queue st) \<lparr>gpio_num = arg, level = l\<rparr> =
      (gpio_evt_queue st, False)"
    using assms(1) by (simp add: xQueueSendFromISR_def)
  have first: "gpio_isr_handler arg t l st =
      (st\<lparr>last_interrupt_time := t\<rparr>, Some \<lparr>gpio_num = arg, level = l\<rparr>)"
    by (simp add: handler_accept [OF assms(2) t0 acc] push)
  from t0 assms(4) have t0': "0 \<le> sint t'"
    by simp
  have second: "gpio_isr_handler arg' t' l' (st\<lparr>last_interrupt_time := t\<rparr>) =
      (st\<lparr>last_interrupt_time := t\<rparr>, None)"
    by (rule handler_reject) (simp_all add: t0 t0' assms(5))
  from push first second show ?thesis
    by simp
qed

theorem full_queue_keeps_debounce_update_witness:
  "gpio_isr_handler BUTTON_GPIO 60000 0
     \<lparr>last_interrupt_time = 0,
      gpio_evt_queue = \<lparr>capacity = 10, items = replicate 10 \<lparr>gpio_num = 21, level = 1\<rparr>\<rparr>,
      buzzer = 0\<rparr> =
     (\<lparr>last_interrupt_time = 60000,
       gpio_evt_queue = \<lparr>capacity = 10, items = replicate 10 \<lparr>gpio_num = 21, level = 1\<rparr>\<rparr>,
       buzzer = 0\<rparr>,
      Some \<lparr>gpio_num = BUTTON_GPIO, level = 0\<rparr>) \<and>
   gpio_isr_handler BUTTON_GPIO 100000 1
     \<lparr>last_interrupt_time = 60000,
      gpio_evt_queue = \<lparr>capacity = 10, items = replicate 10 \<lparr>gpio_num = 21, level = 1\<rparr>\<rparr>,
      buzzer = 0\<rparr> =
     (\<lparr>last_interrupt_time = 60000,
       gpio_evt_queue = \<lparr>capacity = 10, items = replicate 10 \<lparr>gpio_num = 21, level = 1\<rparr>\<rparr>,
       buzzer = 0\<rparr>,
      None)"
  using full_queue_keeps_debounce_update
    [of "\<lparr>last_interrupt_time = 0,
          gpio_evt_queue = \<lparr>capacity = 10, items = replicate 10 \<lparr>gpio_num = 21, level = 1\<rparr>\<rparr>,
          buzzer = 0\<rparr>" 60000 100000 BUTTON_GPIO 0 BUTTON_GPIO 1]
  by simp

section \<open>The other doorbell handlers\<close>

text \<open>
  The handler of the run 19-38-55 decides as the handler of \<open>part_000\<close> does, and it
  too moves its timestamp before the push and drops the status of the push.
\<close>

lemma handler_193855_same_check:
  assumes "last_interrupt_time_193855 s = last_interrupt_time st"
  shows "(snd (gpio_isr_handler_193855 t l s) = None) =
         (snd (gpio_isr_handler arg t l st) = None) \<and>
         last_interrupt_time_193855 (fst (gpio_isr_handler_193855 t l s)) =
         last_interrupt_time (fst (gpio_isr_handler arg t l st))"
  using assms by (simp add: gpio_isr_handler_193855_def gpio_isr_handler_def Let_def)

text \<open>
  The first doorbell of the run 18-59-37 tests \<open>elapsed > DEBOUNCE_TIME_US\<close>: after an
  edge accepted at 60,000 it rejects the edge that comes exactly 50,000 later, which the
  handler of \<open>part_000\<close> accepts.
\<close>

lemma handler_185937_rejects_equal_spacing:
  "snd (gpio_isr_handler_185937 BUTTON_GPIO 110000
          (fst (gpio_isr_handler_185937 BUTTON_GPIO 60000 app_main_185937))) = None \<and>
   snd (gpio_isr_handler BUTTON_GPIO 110000 0
          (fst (gpio_isr_handler BUTTON_GPIO 60000 0 app_main))) \<noteq> None"
  by (simp add: gpio_isr_handler_185937_def app_main_185937_def doorbell_eval)

text \<open>
  Neighbouring edges less than 50,000 apart are not enough for a single event: of the
  edges at 60,000, 100,000 and 140,000 the first and the third are accepted, the third
  being 80,000 after the first.
\<close>

lemma neighbours_within_window_two_events:
  "accepted_times [(60000, 0), (100000, 0), (140000, 0)] app_main = [60000, 140000]"
  by (simp add: doorbell_eval)

section \<open>Where the level is read\<close>

text \<open>
  In \<open>part_000\<close> the level that decides the buzzer is the one the event carries: the
  task round writes 1 to the buzzer when the oldest queued event has level 0, and 0
  otherwise, and reads no pin.
\<close>

lemma gpio_task_uses_carried_level:
  assumes "items (gpio_evt_queue st) = evt # rest"
  shows "map_option buzzer (gpio_task st) = Some (if level evt = 0 then 1 else 0)"
  using assms by (simp add: gpio_task_def xQueueReceive_def)

text \<open>
  C8: every accepted event carries the level sampled in the interrupt handler, and the
  task decides from that level only. The first doorbell of the run 18-59-37 does
  otherwise: the handler queues the pin number alone, and for one and the same queued
  event the task turns the buzzer off when the pin reads 1 at the time of the task round
  and on when it reads 0. For an edge with level 0, \<open>part_000\<close> turns the buzzer on.
\<close>

theorem task_rereads_pin:
  "map_option buzzer_185937
     (gpio_task_185937 1 (fst (gpio_isr_handler_185937 BUTTON_GPIO 60000 app_main_185937))) =
     Some 0 \<and>
   map_option buzzer_185937
     (gpio_task_185937 0 (fst (gpio_isr_handler_185937 BUTTON_GPIO 60000 app_main_185937))) =
     Some 1 \<and>
   snd (gpio_isr_handler_185937 BUTTON_GPIO 60000 app_main_185937) = Some BUTTON_GPIO \<and>
   map_option buzzer (gpio_task (fst (gpio_isr_handler BUTTON_GPIO 60000 0 app_main))) = Some 1"
  by (simp add: gpio_task_185937_def gpio_isr_handler_185937_def app_main_185937_def
      gpio_task_def xQueueReceive_def doorbell_eval)

section \<open>The event queue as a bounded FIFO\<close>

lemma queue_run_Push:
  "queue_run (Push x # ops) q =
     (if length (items q) < capacity q
      then (x # fst (queue_run ops (q\<lparr>items := items q @ [x]\<rparr>)),
            snd (queue_run ops (q\<lparr>items := items q @ [x]\<rparr>)))
      else queue_run ops q)"
  by (simp add: xQueueSendFromISR_def split_beta)

lemma queue_run_Pop:
  "queue_run (Pop # ops) q =
     (case items q of
        [] \<Rightarrow> queue_run ops q
      | x # rest \<Rightarrow>
          (fst (queue_run ops (q\<lparr>items := rest\<rparr>)),
           x # fst (snd (queue_run ops (q\<lparr>items := rest\<rparr>))),
           snd (snd (queue_run ops (q\<lparr>items := rest\<rparr>)))))"
  by (simp add: xQueueReceive_def split_beta split: list.splits)

lemma queue_run_append:
  "queue_run (ops1 @ ops2) q =
     (fst (queue_run ops1 q) @ fst (queue_run ops2 (snd (snd (queue_run ops1 q)))),
      fst (snd (queue_run ops1 q)) @ fst (snd (queue_run ops2 (snd (snd (queue_run ops1 q))))),
      snd (snd (queue_run ops2 (snd (snd (queue_run ops1 q))))))"
proof (induction ops1 arbitrary: q)
  case Nil
  then show ?case by simp
next
  case (Cons a ops1)
  show ?case
  proof (cases a)
    case (Push x)
    then show ?thesis
      unfolding Push append_Cons queue_run_Push by (simp add: Cons.IH)
  next
    case Pop
    then show ?thesis
      unfolding Pop append_Cons queue_run_Pop by (simp add: Cons.IH split: list.splits)
  qed
qed

lemma queue_run_pushes:
  "queue_run (map Push es) q =
     (take (capacity q - length (items q)) es, [],
      q\<lparr>items := items q @ take (capacity q - length (items q)) es\<rparr>)"
proof (induction es arbitrary: q)
  case Nil
  then show ?case by simp
next
  case (Cons e es)
  show ?case
  proof (cases "length (items q) < capacity q")
    case True
    then have "capacity q - length (items q) = Suc (capacity q - Suc (length (items q)))"
      by simp
    with True show ?thesis
      unfolding list.map queue_run_Push by (simp add: Cons.IH)
  next
    case False
    then show ?thesis
      unfolding list.map queue_run_Push by (simp add: Cons.IH)
  qed
qed

lemma queue_run_pops:
  "queue_run (replicate n Pop) q = ([], take n (items q), q\<lparr>items := drop n (items q)\<rparr>)"
proof (induction n arbitrary: q)
  case 0
  then show ?case by simp
next
  case (Suc n)
  show ?case
    unfolding replicate_Suc queue_run_Pop
    by (cases "items q") (simp_all add: Suc.IH)
qed

lemma queue_run_fifo:
  "items q @ fst (queue_run ops q) =
     fst (snd (queue_run ops q)) @ items (snd (snd (queue_run ops q)))"
proof (induction ops arbitrary: q)
  case Nil
  then show ?case by simp
next
  case (Cons a ops)
  show ?case
  proof (cases a)
    case (Push x)
    show ?thesis
      unfolding Push queue_run_Push
      using Cons.IH [of q] Cons.IH [of "q\<lparr>items := items q @ [x]\<rparr>"] by simp
  next
    case Pop
    show ?thesis
    proof (cases "items q")
      case Nil
      then show ?thesis
        unfolding Pop queue_run_Pop using Cons.IH [of q] by simp
    next
      case (Cons x rest)
      then show ?thesis
        unfolding Pop queue_run_Pop using Cons.IH [of "q\<lparr>items := rest\<rparr>"] by simp
    qed
  qed
qed

lemma queue_run_bounded:
  "length (items q) \<le> capacity q \<Longrightarrow>
   length (items (snd (snd (queue_run ops q)))) \<le> capacity q \<and>
   capacity (snd (snd (queue_run ops q))) = capacity q"
proof (induction ops arbitrary: q)
  case Nil
  then show ?case by simp
next
  case (Cons a ops)
  show ?case
  proof (cases a)
    case (Push x)
    show ?thesis
      unfolding Push queue_run_Push
      using Cons.IH [of q] Cons.IH [of "q\<lparr>items := items q @ [x]\<rparr>"] Cons.prems by simp
  next
    case Pop
    show ?thesis
    proof (cases "items q")
      case Nil
      then show ?thesis
        unfolding Pop queue_run_Pop using Cons.IH [of q] Cons.prems by simp
    next
      case (Cons x rest)
      then show ?thesis
        unfolding Pop queue_run_Pop
        using Cons.IH [of "q\<lparr>items := rest\<rparr>"] Cons.prems by simp
    qed
  qed
qed

text \<open>
  C4: fifteen pushes into the empty queue of capacity ten, with no pop in between, leave
  the first ten events in the queue, in push order; the last five pushes fail. Ten pops
  then deliver these ten events in push order and empty the queue, on which a further
  pop finds nothing. In every run of pushes and pops, the events already queued followed
  by the events pushed with success are the events delivered followed by the events
  still queued: what is delivered is an initial part of what was taken in, in the same
  order, and the queue never holds more than its capacity.
\<close>

theorem event_channel_fifo_drop_newest:
  assumes "length es = 15"
  shows "queue_run (map Push es) (xQueueCreate 10) =
           (take 10 es, [], \<lparr>capacity = 10, items = take 10 es\<rparr>) \<and>
         map (\<lambda>e. snd (xQueueSendFromISR \<lparr>capacity = 10, items = take 10 es\<rparr> e)) (drop 10 es) =
           replicate 5 False \<and>
         queue_run (map Push es @ replicate 10 Pop) (xQueueCreate 10) =
           (take 10 es, take 10 es, xQueueCreate 10) \<and>
         xQueueReceive (xQueueCreate 10 :: 'a queue) = None \<and>
         (\<forall>ops (q :: 'a queue). case queue_run ops q of (pushed, popped, q') \<Rightarrow>
            items q @ pushed = popped @ items q' \<and>
            (length (items q) \<le> capacity q \<longrightarrow> length (items q') \<le> capacity q))"
proof (intro conjI allI)
  show pushes: "queue_run (map Push es) (xQueueCreate 10) =
      (take 10 es, [], \<lparr>capacity = 10, items = take 10 es\<rparr>)"
    by (simp add: queue_run_pushes xQueueCreate_def)
  show "map (\<lambda>e. snd (xQueueSendFromISR \<lparr>capacity = 10, items = take 10 es\<rparr> e)) (drop 10 es) =
      replicate 5 False"
    using assms by (simp add: xQueueSendFromISR_def map_replicate_const)
  show "queue_run (map Push es @ replicate 10 Pop) (xQueueCreate 10) =
      (take 10 es, take 10 es, xQueueCreate 10)"
    using assms
    unfolding queue_run_append pushes queue_run_pops
    by (simp add: xQueueCreate_def)
  show "xQueueReceive (xQueueCreate 10 :: 'a queue) = None"
    by (simp add: xQueueReceive_def xQueueCreate_def)
next
  fix ops and q :: "'a queue"
  show "case queue_run ops q of (pushed, popped, q') \<Rightarrow>
      items q @ pushed = popped @ items q' \<and>
      (length (items q) \<le> capacity q \<longrightarrow> length (items q') \<le> capacity q)"
    using queue_run_fifo [of q ops] queue_run_bounded [of q ops]
    by (simp add: split_beta)
qed

theorem event_channel_fifo_drop_newest_witness:
  "length [1, 2, 3, 4, 5, 6, 7, 8, 9, 10, 11, 12, 13, 14, 15 :: nat] = 15 \<and>
   queue_run (map Push [1, 2, 3, 4, 5, 6, 7, 8, 9, 10, 11, 12, 13, 14, 15 :: nat] @
              replicate 10 Pop) (xQueueCreate 10) =
     ([1, 2, 3, 4, 5, 6, 7, 8, 9, 10], [1, 2, 3, 4, 5, 6, 7, 8, 9, 10], xQueueCreate 10)"
proof -
  have h: "length [1, 2, 3, 4, 5, 6, 7, 8, 9, 10, 11, 12, 13, 14, 15 :: nat] = 15"
    by simp
  have "queue_run (map Push [1, 2, 3, 4, 5, 6, 7, 8, 9, 10, 11, 12, 13, 14, 15 :: nat] @
      replicate 10 Pop) (xQueueCreate 10) =
      (take 10 [1, 2, 3, 4, 5, 6, 7, 8, 9, 10, 11, 12, 13, 14, 15],
       take 10 [1, 2, 3, 4, 5, 6, 7, 8, 9, 10, 11, 12, 13, 14, 15], xQueueCreate 10)"
    using event_channel_fifo_drop_newest [OF h] by blast
  moreover have "take 10 [1, 2, 3, 4, 5, 6, 7, 8, 9, 10, 11, 12, 13, 14, 15 :: nat] =
      [1, 2, 3, 4, 5, 6, 7, 8, 9, 10]"
    by simp
  ultimately show ?thesis
    using h by (simp only: simp_thms)
qed

section \<open>The mode counter advances modulo four\<close>

lemma unat_advance: "unat (advance c) = (unat c + 1) mod 4"
proof -
  have "(unat c + 1) mod 4 < 4"
    by simp
  then have "(unat c + 1) mod 4 < 2 ^ LENGTH(8)"
    by simp
  then show ?thesis
    unfolding advance_def by (rule of_nat_inverse [OF refl])
qed



lemma isr_accept:
  assumes "debounce_time_ms < tick * per - last_interrupt_time_ms st"
  shows "button_isr_handler tick per lk st =
     (let st3 = st\<lparr>last_interrupt_time_ms := tick * per,
                   button_press_count := advance (button_press_count st),
                   main_task_handle :=
                     (if main_task_handle st = None then lk else main_task_handle st)\<rparr>
      in case main_task_handle st3 of
           None \<Rightarrow> st3
         | Some h \<Rightarrow>
             st3\<lparr>notification := notification st + 1,
                 calls := calls st @ [VTaskNotifyGiveFromISR h]\<rparr>)"
  using assms
  by (simp add: button_isr_handler_def advance_def log_calls_def Let_def
      split: option.splits)





section \<open>Reconfiguring the LED timer\<close>

lemma configure_led_timer_calls:
  "\<exists>r. calls (case configure_led_timer env mode st of Inl a \<Rightarrow> a | Inr b \<Rightarrow> b) =
         calls st @ release_calls (led_timer st) @ r \<and>
       (if mode < 3
        then (case new_timer_ret env of
                None \<Rightarrow> r = [Gptimer_new_timer]
              | Some h \<Rightarrow> prefix r (setup_calls h mode))
        else r = [])"
proof (cases "mode < 3")
  case False
  then show ?thesis
    by (simp add: configure_led_timer_def log_calls_def release_calls_def Let_def
        split: option.splits)
next
  case True
  show ?thesis
  proof (cases "new_timer_ret env")
    case None
    with True show ?thesis
      by (simp add: configure_led_timer_def log_calls_def release_calls_def Let_def
          split: option.splits)
  next
    case (Some h)
    with True show ?thesis
      by (cases "register_ret env"; cases "set_alarm_ret env"; cases "enable_ret env";
          cases "start_ret env")
        (simp_all add: configure_led_timer_def log_calls_def release_calls_def
          setup_calls_def Let_def split: option.splits)
  qed
qed

lemma emitted_configure:
  "\<exists>r. emitted st (configure_led_timer env mode st) = release_calls (led_timer st) @ r \<and>
       (if mode < 3
        then (case new_timer_ret env of
                None \<Rightarrow> r = [Gptimer_new_timer]
              | Some h \<Rightarrow> prefix r (setup_calls h mode))
        else r = [])"
  using configure_led_timer_calls [of env mode st]
  by (auto simp: emitted_def)

lemma released_first_release_calls:
  "released_first old (release_calls (Some old) @ r)"
  by (simp add: released_first_def release_calls_def Let_def)

lemma configure_led_timer_ok:
  assumes "driver_ok env" and "new_timer_ret env = Some h"
  shows "configure_led_timer env mode st =
     Inr (st\<lparr>led_timer := (if mode < 3 then Some h else None),
             calls := calls st @ release_calls (led_timer st) @
                      (if mode < 3 then setup_calls h mode else [])\<rparr>)"
  using assms
  by (cases st)
    (simp add: configure_led_timer_def driver_ok_def log_calls_def release_calls_def
      setup_calls_def Let_def split: option.splits)

section \<open>The two ways to change the period\<close>

lemma below_three_cases:
  fixes x :: uint8_t
  assumes "x < 3"
  shows "x = 0 \<or> x = 1 \<or> x = 2"
proof -
  from assms have "unat x < 3"
    by (simp add: word_less_nat_alt)
  then have "unat x = 0 \<or> unat x = 1 \<or> unat x = 2"
    by arith
  then show ?thesis
    by (simp add: word_unat_eq_iff)
qed

lemma button_task_keeps_timer:
  assumes "soft_led_timer s = Some t"
    and "button_state s < 3"
    and "wait_release ls = Some n"
  shows "button_task (1 # ls) True s =
     Some (s\<lparr>button_state := advance (button_state s),
              soft_calls := soft_calls s @
                [VTaskDelay_ms 50, Gpio_set_level BUZZER_GPIO 1, VTaskDelay_ms 100,
                 Gpio_set_level BUZZER_GPIO 0, XTimerStop (Some t),
                 XTimerChangePeriod (Some t) ([500, 250, 125] ! unat (button_state s)),
                 XTimerStart (Some t)] @
                replicate n (VTaskDelay_ms 10) @ [VTaskDelay_ms 50]\<rparr>)"
proof -
  from below_three_cases [OF assms(2)] consider
    "button_state s = 0" | "button_state s = 1" | "button_state s = 2"
    by blast
  then show ?thesis
  proof cases
    case 1
    with assms(1,3) show ?thesis
      by (simp add: button_task_def soft_log_def advance_def BUZZER_DURATION_MS_def Let_def)
  next
    case 2
    with assms(1,3) show ?thesis
      by (simp add: button_task_def soft_log_def advance_def BUZZER_DURATION_MS_def Let_def)
  next
    case 3
    with assms(1,3) show ?thesis
      by (simp add: button_task_def soft_log_def advance_def BUZZER_DURATION_MS_def Let_def)
  qed
qed

lemma configure_led_timer_emitted_exact:
  assumes "led_timer st = Some old"
    and "new_timer_ret env = Some h"
    and "mode < 3"
  shows "emitted st (configure_led_timer env mode st) =
     [Gptimer_stop old, Gptimer_disable old, Gptimer_del_timer old,
      Gpio_set_level LED_GPIO 0] @
     take (if \<not> register_ret env then 2
           else if \<not> set_alarm_ret env then 3
           else if \<not> enable_ret env then 4 else 5)
       [Gptimer_new_timer, Gptimer_register_event_callbacks h,
        Gptimer_set_alarm_action h (timer_periods ! unat mode), Gptimer_enable h,
        Gptimer_start h]"
  using assms
  by (cases "register_ret env"; cases "set_alarm_ret env"; cases "enable_ret env";
      cases "start_ret env")
    (simp_all add: emitted_def configure_led_timer_def log_calls_def Let_def)

lemma configure_led_timer_success:
  assumes "led_timer st = Some old"
    and "driver_ok env"
    and "new_timer_ret env = Some h"
  shows "configure_led_timer env mode st =
     Inr (st\<lparr>led_timer := (if mode < 3 then Some h else None),
             calls := calls st @
               [Gptimer_stop old, Gptimer_disable old, Gptimer_del_timer old,
                Gpio_set_level LED_GPIO 0] @
               (if mode < 3
                then [Gptimer_new_timer, Gptimer_register_event_callbacks h,
                      Gptimer_set_alarm_action h (timer_periods ! unat mode),
                      Gptimer_enable h, Gptimer_start h]
                else [])\<rparr>)"
  unfolding configure_led_timer_ok [OF assms(2,3)] assms(1)
  by (simp add: release_calls_def setup_calls_def)

text \<open>
  C5, as stated: every reconfiguration of the waveform generator while it runs stops and
  releases the running alarm (stop, disable, destroy) before a new period is applied or
  the generator is started again. The software-timer program does not: with its timer
  running at the second press, \<open>button_task\<close> stops the timer, then gives the same
  handle its new period and starts it; no call releases it.
\<close>

theorem soft_timer_reconfigure_counterexample:
  "button_task [1, 0] True
     \<lparr>soft_led_timer = Some 5, button_state = 1, led_state = False, soft_calls = []\<rparr> =
     Some \<lparr>soft_led_timer = Some 5, button_state = 2, led_state = False,
           soft_calls =
             [VTaskDelay_ms 50, Gpio_set_level BUZZER_GPIO 1, VTaskDelay_ms 100,
              Gpio_set_level BUZZER_GPIO 0, XTimerStop (Some 5),
              XTimerChangePeriod (Some 5) 250, XTimerStart (Some 5), VTaskDelay_ms 50]\<rparr> \<and>
   \<not> released_first 5
       [VTaskDelay_ms 50, Gpio_set_level BUZZER_GPIO 1, VTaskDelay_ms 100,
        Gpio_set_level BUZZER_GPIO 0, XTimerStop (Some 5),
        XTimerChangePeriod (Some 5) 250, XTimerStart (Some 5), VTaskDelay_ms 50]"
  by (simp add: button_task_def soft_log_def BUZZER_DURATION_MS_def released_first_def
      Let_def)

text \<open>
  C5, amended: in the hardware-timer program, every call of \<open>configure_led_timer\<close> made
  while a timer exists first stops, disables and deletes that timer, in this order, and
  clears the LED pin; only then, for a mode below 3, does it create a new timer and give
  that new timer its period, enable it and start it: all five calls when each succeeds,
  and up to and including the first that fails otherwise. For mode 3 it makes no further
  call. No period is written to the timer that was running.
  In the software-timer program the timer is not released: a round of \<open>button_task\<close>
  that changes the frequency while the timer is active stops the timer, then changes
  the period of the same handle and starts it again.
\<close>

theorem configure_led_timer_releases_first:
  assumes "led_timer st = Some old"
  shows "released_first old (emitted st (configure_led_timer env mode st)) \<and>
         take 4 (emitted st (configure_led_timer env mode st)) =
           [Gptimer_stop old, Gptimer_disable old, Gptimer_del_timer old,
            Gpio_set_level LED_GPIO 0] \<and>
         (if mode < 3
          then (case new_timer_ret env of
                  None \<Rightarrow> drop 4 (emitted st (configure_led_timer env mode st)) =
                    [Gptimer_new_timer]
                | Some h \<Rightarrow>
                    prefix (drop 4 (emitted st (configure_led_timer env mode st)))
                      (setup_calls h mode))
          else drop 4 (emitted st (configure_led_timer env mode st)) = []) \<and>
         (new_timer_ret env = Some h \<and> mode < 3 \<longrightarrow>
            emitted st (configure_led_timer env mode st) =
              [Gptimer_stop old, Gptimer_disable old, Gptimer_del_timer old,
               Gpio_set_level LED_GPIO 0] @
              take (if \<not> register_ret env then 2
                    else if \<not> set_alarm_ret env then 3
                    else if \<not> enable_ret env then 4 else 5)
                [Gptimer_new_timer, Gptimer_register_event_callbacks h,
                 Gptimer_set_alarm_action h (timer_periods ! unat mode), Gptimer_enable h,
                 Gptimer_start h]) \<and>
         (driver_ok env \<and> new_timer_ret env = Some h \<longrightarrow>
            configure_led_timer env mode st =
              Inr (st\<lparr>led_timer := (if mode < 3 then Some h else None),
                      calls := calls st @
                        [Gptimer_stop old, Gptimer_disable old, Gptimer_del_timer old,
                         Gpio_set_level LED_GPIO 0] @
                        (if mode < 3
                         then [Gptimer_new_timer, Gptimer_register_event_callbacks h,
                               Gptimer_set_alarm_action h (timer_periods ! unat mode),
                               Gptimer_enable h, Gptimer_start h]
                         else [])\<rparr>)) \<and>
         (soft_led_timer s = Some t \<and> button_state s < 3 \<and> wait_release ls = Some n \<longrightarrow>
            button_task (1 # ls) True s =
              Some (s\<lparr>button_state := advance (button_state s),
                       soft_calls := soft_calls s @
                         [VTaskDelay_ms 50, Gpio_set_level BUZZER_GPIO 1, VTaskDelay_ms 100,
                          Gpio_set_level BUZZER_GPIO 0, XTimerStop (Some t),
                          XTimerChangePeriod (Some t)
                            ([500, 250, 125] ! unat (button_state s)),
                          XTimerStart (Some t)] @
                         replicate n (VTaskDelay_ms 10) @ [VTaskDelay_ms 50]\<rparr>))"
proof -
  from emitted_configure [of st env mode] assms obtain r where
    e: "emitted st (configure_led_timer env mode st) = release_calls (Some old) @ r" and
    r: "if mode < 3
        then (case new_timer_ret env of
                None \<Rightarrow> r = [Gptimer_new_timer]
              | Some h \<Rightarrow> prefix r (setup_calls h mode))
        else r = []"
    by auto
  have "released_first old (emitted st (configure_led_timer env mode st))"
    unfolding e by (rule released_first_release_calls)
  moreover have "take 4 (emitted st (configure_led_timer env mode st)) =
      [Gptimer_stop old, Gptimer_disable old, Gptimer_del_timer old,
       Gpio_set_level LED_GPIO 0]"
    unfolding e by (simp add: release_calls_def)
  moreover have d: "drop 4 (emitted st (configure_led_timer env mode st)) = r"
    unfolding e by (simp add: release_calls_def)
  moreover have "if mode < 3
      then (case new_timer_ret env of
              None \<Rightarrow> drop 4 (emitted st (configure_led_timer env mode st)) =
                [Gptimer_new_timer]
            | Some h \<Rightarrow>
                prefix (drop 4 (emitted st (configure_led_timer env mode st)))
                  (setup_calls h mode))
      else drop 4 (emitted st (configure_led_timer env mode st)) = []"
    unfolding d by (rule r)
  moreover have "new_timer_ret env = Some h \<and> mode < 3 \<longrightarrow>
      emitted st (configure_led_timer env mode st) =
        [Gptimer_stop old, Gptimer_disable old, Gptimer_del_timer old,
         Gpio_set_level LED_GPIO 0] @
        take (if \<not> register_ret env then 2
              else if \<not> set_alarm_ret env then 3
              else if \<not> enable_ret env then 4 else 5)
          [Gptimer_new_timer, Gptimer_register_event_callbacks h,
           Gptimer_set_alarm_action h (timer_periods ! unat mode), Gptimer_enable h,
           Gptimer_start h]"
    by (intro impI, elim conjE, rule configure_led_timer_emitted_exact [OF assms])
  moreover have "driver_ok env \<and> new_timer_ret env = Some h \<longrightarrow>
      configure_led_timer env mode st =
        Inr (st\<lparr>led_timer := (if mode < 3 then Some h else None),
                calls := calls st @
                  [Gptimer_stop old, Gptimer_disable old, Gptimer_del_timer old,
                   Gpio_set_level LED_GPIO 0] @
                  (if mode < 3
                   then [Gptimer_new_timer, Gptimer_register_event_callbacks h,
                         Gptimer_set_alarm_action h (timer_periods ! unat mode),
                         Gptimer_enable h, Gptimer_start h]
                   else [])\<rparr>)"
    by (intro impI, elim conjE, rule configure_led_timer_success [OF assms])
  moreover have "soft_led_timer s = Some t \<and> button_state s < 3 \<and>
      wait_release ls = Some n \<longrightarrow>
      button_task (1 # ls) True s =
        Some (s\<lparr>button_state := advance (button_state s),
                 soft_calls := soft_calls s @
                   [VTaskDelay_ms 50, Gpio_set_level BUZZER_GPIO 1, VTaskDelay_ms 100,
                    Gpio_set_level BUZZER_GPIO 0, XTimerStop (Some t),
                    XTimerChangePeriod (Some t) ([500, 250, 125] ! unat (button_state s)),
                    XTimerStart (Some t)] @
                   replicate n (VTaskDelay_ms 10) @ [VTaskDelay_ms 50]\<rparr>)"
    by (intro impI, elim conjE, rule button_task_keeps_timer)
  ultimately show ?thesis
    by (simp only: simp_thms)
qed

theorem configure_led_timer_releases_first_witness:
  "led_timer \<lparr>led_timer = Some 11, button_press_count = 2, last_interrupt_time_ms = 100,
      main_task_handle = Some 7, notification = 0, calls = []\<rparr> = Some 11 \<and>
   released_first 11
     (emitted \<lparr>led_timer = Some 11, button_press_count = 2, last_interrupt_time_ms = 100,
        main_task_handle = Some 7, notification = 0, calls = []\<rparr>
       (configure_led_timer
          \<lparr>new_timer_ret = Some 12, register_ret = True, set_alarm_ret = True,
             enable_ret = True, start_ret = True\<rparr> 2
          \<lparr>led_timer = Some 11, button_press_count = 2, last_interrupt_time_ms = 100,
             main_task_handle = Some 7, notification = 0, calls = []\<rparr>)) \<and>
   emitted \<lparr>led_timer = Some 11, button_press_count = 2, last_interrupt_time_ms = 100,
        main_task_handle = Some 7, notification = 0, calls = []\<rparr>
     (configure_led_timer
        \<lparr>new_timer_ret = Some 12, register_ret = True, set_alarm_ret = True,
           enable_ret = True, start_ret = True\<rparr> 2
        \<lparr>led_timer = Some 11, button_press_count = 2, last_interrupt_time_ms = 100,
           main_task_handle = Some 7, notification = 0, calls = []\<rparr>) =
     [Gptimer_stop 11, Gptimer_disable 11, Gptimer_del_timer 11, Gpio_set_level LED_GPIO 0,
      Gptimer_new_timer, Gptimer_register_event_callbacks 12,
      Gptimer_set_alarm_action 12 125000, Gptimer_enable 12, Gptimer_start 12] \<and>
   driver_ok \<lparr>new_timer_ret = Some 12, register_ret = True, set_alarm_ret = True,
      enable_ret = True, start_ret = True\<rparr> \<and>
   configure_led_timer
     \<lparr>new_timer_ret = Some 12, register_ret = True, set_alarm_ret = True,
        enable_ret = True, start_ret = True\<rparr> 2
     \<lparr>led_timer = Some 11, button_press_count = 2, last_interrupt_time_ms = 100,
        main_task_handle = Some 7, notification = 0, calls = []\<rparr> =
     Inr \<lparr>led_timer = Some 12, button_press_count = 2, last_interrupt_time_ms = 100,
          main_task_handle = Some 7, notification = 0,
          calls =
            [Gptimer_stop 11, Gptimer_disable 11, Gptimer_del_timer 11,
             Gpio_set_level LED_GPIO 0, Gptimer_new_timer,
             Gptimer_register_event_callbacks 12, Gptimer_set_alarm_action 12 125000,
             Gptimer_enable 12, Gptimer_start 12]\<rparr> \<and>
   soft_led_timer
     \<lparr>soft_led_timer = Some 5, button_state = 1, led_state = False, soft_calls = []\<rparr> =
     Some 5 \<and>
   button_state
     \<lparr>soft_led_timer = Some 5, button_state = 1, led_state = False, soft_calls = []\<rparr> < 3 \<and>
   wait_release [1, 0] = Some 1 \<and>
   button_task [1, 1, 0] True
     \<lparr>soft_led_timer = Some 5, button_state = 1, led_state = False, soft_calls = []\<rparr> =
     Some \<lparr>soft_led_timer = Some 5, button_state = 2, led_state = False,
           soft_calls =
             [VTaskDelay_ms 50, Gpio_set_level BUZZER_GPIO 1, VTaskDelay_ms 100,
              Gpio_set_level BUZZER_GPIO 0, XTimerStop (Some 5),
              XTimerChangePeriod (Some 5) 250, XTimerStart (Some 5), VTaskDelay_ms 10,
              VTaskDelay_ms 50]\<rparr>"
proof -
  let ?st = "\<lparr>led_timer = Some 11, button_press_count = 2, last_interrupt_time_ms = 100,
      main_task_handle = Some 7, notification = 0, calls = []\<rparr>"
  let ?env = "\<lparr>new_timer_ret = Some 12, register_ret = True, set_alarm_ret = True,
      enable_ret = True, start_ret = True\<rparr>"
  let ?s = "\<lparr>soft_led_timer = Some 5, button_state = 1, led_state = False,
      soft_calls = []\<rparr>"
  have h: "led_timer ?st = Some 11"
    by simp
  have k1: "driver_ok ?env"
    by (simp add: driver_ok_def)
  have k2: "new_timer_ret ?env = Some 12"
    by simp
  have k3: "(2 :: uint8_t) < 3"
    by simp
  have g1: "soft_led_timer ?s = Some 5"
    by simp
  have g2: "button_state ?s < 3"
    by simp
  have g3: "wait_release [1, 0] = Some 1"
    by simp
  note inst = configure_led_timer_releases_first [OF h, of ?env 2 12 ?s 5 "[1, 0]" 1]
  have a: "released_first 11 (emitted ?st (configure_led_timer ?env 2 ?st))"
    using inst by (rule conjunct1)
  have "emitted ?st (configure_led_timer ?env 2 ?st) =
      [Gptimer_stop 11, Gptimer_disable 11, Gptimer_del_timer 11,
       Gpio_set_level LED_GPIO 0] @
      take (if \<not> register_ret ?env then 2
            else if \<not> set_alarm_ret ?env then 3
            else if \<not> enable_ret ?env then 4 else 5)
        [Gptimer_new_timer, Gptimer_register_event_callbacks 12,
         Gptimer_set_alarm_action 12 (timer_periods ! unat (2 :: uint8_t)), Gptimer_enable 12,
         Gptimer_start 12]"
    using inst [THEN conjunct2, THEN conjunct2, THEN conjunct2, THEN conjunct1] k2 k3
    by (simp only: simp_thms)
  then have e: "emitted ?st (configure_led_timer ?env 2 ?st) =
     [Gptimer_stop 11, Gptimer_disable 11, Gptimer_del_timer 11, Gpio_set_level LED_GPIO 0,
      Gptimer_new_timer, Gptimer_register_event_callbacks 12,
      Gptimer_set_alarm_action 12 125000, Gptimer_enable 12, Gptimer_start 12]"
    by (simp add: timer_periods_def)
  have "configure_led_timer ?env 2 ?st =
      Inr (?st\<lparr>led_timer := (if (2 :: uint8_t) < 3 then Some 12 else None),
               calls := calls ?st @
                 [Gptimer_stop 11, Gptimer_disable 11, Gptimer_del_timer 11,
                  Gpio_set_level LED_GPIO 0] @
                 (if (2 :: uint8_t) < 3
                  then [Gptimer_new_timer, Gptimer_register_event_callbacks 12,
                        Gptimer_set_alarm_action 12 (timer_periods ! unat (2 :: uint8_t)),
                        Gptimer_enable 12, Gptimer_start 12]
                  else [])\<rparr>)"
    using inst [THEN conjunct2, THEN conjunct2, THEN conjunct2, THEN conjunct2,
        THEN conjunct1] k1 k2
    by (simp only: simp_thms)
  then have f: "configure_led_timer ?env 2 ?st =
     Inr \<lparr>led_timer = Some 12, button_press_count = 2, last_interrupt_time_ms = 100,
          main_task_handle = Some 7, notification = 0,
          calls =
            [Gptimer_stop 11, Gptimer_disable 11, Gptimer_del_timer 11,
             Gpio_set_level LED_GPIO 0, Gptimer_new_timer,
             Gptimer_register_event_callbacks 12, Gptimer_set_alarm_action 12 125000,
             Gptimer_enable 12, Gptimer_start 12]\<rparr>"
    by (simp add: timer_periods_def)
  have "button_task (1 # [1, 0]) True ?s =
      Some (?s\<lparr>button_state := advance (button_state ?s),
               soft_calls := soft_calls ?s @
                 [VTaskDelay_ms 50, Gpio_set_level BUZZER_GPIO 1, VTaskDelay_ms 100,
                  Gpio_set_level BUZZER_GPIO 0, XTimerStop (Some 5),
                  XTimerChangePeriod (Some 5) ([500, 250, 125] ! unat (button_state ?s)),
                  XTimerStart (Some 5)] @
                 replicate 1 (VTaskDelay_ms 10) @ [VTaskDelay_ms 50]\<rparr>)"
    using inst [THEN conjunct2, THEN conjunct2, THEN conjunct2, THEN conjunct2,
        THEN conjunct2] g1 g2 g3
    by (simp only: simp_thms)
  then have b: "button_task [1, 1, 0] True ?s =
     Some \<lparr>soft_led_timer = Some 5, button_state = 2, led_state = False,
           soft_calls =
             [VTaskDelay_ms 50, Gpio_set_level BUZZER_GPIO 1, VTaskDelay_ms 100,
              Gpio_set_level BUZZER_GPIO 0, XTimerStop (Some 5),
              XTimerChangePeriod (Some 5) 250, XTimerStart (Some 5), VTaskDelay_ms 10,
              VTaskDelay_ms 50]\<rparr>"
    by (simp add: advance_def)
  from h a e k1 f g1 g2 g3 b show ?thesis
    by (simp only: simp_thms)
qed

section \<open>A press and the round of the main task that follows it\<close>

lemma press_round:
  assumes acc: "debounce_time_ms < press_time p - last_interrupt_time_ms st"
    and idle: "notification st = 0"
    and task: "(if main_task_handle st = None then task_lookup p else main_task_handle st) =
      Some mt"
    and drv: "driver_ok (driver p)" "new_timer_ret (driver p) = Some h"
  shows "run_presses (p # ps) st =
     run_presses ps
       (st\<lparr>led_timer := (if advance (button_press_count st) < 3 then Some h else None),
           button_press_count := advance (button_press_count st),
           last_interrupt_time_ms := press_time p,
           main_task_handle := Some mt,
           notification := 0,
           calls := calls st @ [VTaskNotifyGiveFromISR mt] @ pulse_calls @
                    release_calls (led_timer st) @
                    (if advance (button_press_count st) < 3
                     then setup_calls h (advance (button_press_count st)) else [])\<rparr>)"
proof -
  from acc have acc': "debounce_time_ms < tick_count p * tick_period_ms p -
      last_interrupt_time_ms st"
    by (simp add: press_time_def)
  have isr: "button_isr_handler (tick_count p) (tick_period_ms p) (task_lookup p) st =
      st\<lparr>last_interrupt_time_ms := press_time p,
         button_press_count := advance (button_press_count st),
         main_task_handle := Some mt,
         notification := 1,
         calls := calls st @ [VTaskNotifyGiveFromISR mt]\<rparr>"
    using task idle by (simp add: isr_accept [OF acc'] press_time_def)
  show ?thesis
    unfolding run_presses.simps isr
    by (cases st)
      (simp add: main_task_def activate_buzzer_def log_calls_def pulse_calls_def
        configure_led_timer_ok [OF drv])
qed

lemma programmed_after_round:
  assumes "led_timer st = None \<longrightarrow> programmed_period (calls st) = None"
  shows "programmed_period
      (calls st @ [VTaskNotifyGiveFromISR mt] @ pulse_calls @ release_calls (led_timer st) @
       (if mode < 3 then setup_calls h mode else [])) =
     (if mode < 3 then Some (timer_periods ! unat mode) else None)"
  using assms
  by (cases "led_timer st")
    (simp_all add: programmed_period_def release_calls_def setup_calls_def pulse_calls_def)

text \<open>
  C7: with the counter at 3 (the LED off), one accepted press, with the main task idle,
  the task found and the timer driver succeeding, sets the counter to 0, fires the
  buzzer pulse of 100 ms, that is 100,000 microseconds, and then sets the LED timer up
  with the period 500,000, the first entry of the table. With no timer at hand
  (\<open>led_timer = NULL\<close>, as mode 3 leaves it) nothing is released first.
\<close>

theorem one_press_from_mode_three:
  assumes "button_press_count st = 3"
    and "notification st = 0"
    and "debounce_time_ms < press_time p - last_interrupt_time_ms st"
    and "(if main_task_handle st = None then task_lookup p else main_task_handle st) =
      Some mt"
    and "driver_ok (driver p)"
    and "new_timer_ret (driver p) = Some h"
  shows "run_presses [p] st =
           Inr (st\<lparr>led_timer := Some h,
                   button_press_count := 0,
                   last_interrupt_time_ms := press_time p,
                   main_task_handle := Some mt,
                   notification := 0,
                   calls := calls st @
                     [VTaskNotifyGiveFromISR mt, Gpio_set_level BUZZER_GPIO 1,
                      VTaskDelay_ms 100, Gpio_set_level BUZZER_GPIO 0] @
                     release_calls (led_timer st) @
                     [Gptimer_new_timer, Gptimer_register_event_callbacks h,
                      Gptimer_set_alarm_action h 500000, Gptimer_enable h,
                      Gptimer_start h]\<rparr>) \<and>
         (case run_presses [p] st of
            Inl a \<Rightarrow> False
          | Inr st' \<Rightarrow> programmed_period (calls st') = Some 500000) \<and>
         release_calls None = [] \<and>
         timer_periods ! 0 = 500000 \<and>
         BUZZER_DURATION_MS * 1000 = 100000"
proof -
  from assms(1) have adv: "advance (button_press_count st) = 0"
    by (simp add: advance_def)
  have run: "run_presses [p] st =
      Inr (st\<lparr>led_timer := Some h,
              button_press_count := 0,
              last_interrupt_time_ms := press_time p,
              main_task_handle := Some mt,
              notification := 0,
              calls := calls st @
                [VTaskNotifyGiveFromISR mt, Gpio_set_level BUZZER_GPIO 1,
                 VTaskDelay_ms 100, Gpio_set_level BUZZER_GPIO 0] @
                release_calls (led_timer st) @
                [Gptimer_new_timer, Gptimer_register_event_callbacks h,
                 Gptimer_set_alarm_action h 500000, Gptimer_enable h,
                 Gptimer_start h]\<rparr>)"
    unfolding press_round [OF assms(3) assms(2) assms(4) assms(5) assms(6)] adv
    by (simp add: pulse_calls_def setup_calls_def timer_periods_def BUZZER_DURATION_MS_def)
  have "case run_presses [p] st of
      Inl a \<Rightarrow> False
    | Inr st' \<Rightarrow> programmed_period (calls st') = Some 500000"
    unfolding run by (simp add: programmed_period_def)
  with run show ?thesis
    by (simp add: release_calls_def timer_periods_def BUZZER_DURATION_MS_def)
qed

theorem one_press_from_mode_three_witness:
  "run_presses
     [\<lparr>tick_count = 400, tick_period_ms = 10, task_lookup = Some 7,
       driver = \<lparr>new_timer_ret = Some 12, register_ret = True, set_alarm_ret = True,
                 enable_ret = True, start_ret = True\<rparr>\<rparr>]
     \<lparr>led_timer = None, button_press_count = 3, last_interrupt_time_ms = 3000,
      main_task_handle = Some 7, notification = 0, calls = []\<rparr> =
     Inr \<lparr>led_timer = Some 12, button_press_count = 0, last_interrupt_time_ms = 4000,
          main_task_handle = Some 7, notification = 0,
          calls =
            [VTaskNotifyGiveFromISR 7, Gpio_set_level BUZZER_GPIO 1, VTaskDelay_ms 100,
             Gpio_set_level BUZZER_GPIO 0, Gptimer_new_timer,
             Gptimer_register_event_callbacks 12, Gptimer_set_alarm_action 12 500000,
             Gptimer_enable 12, Gptimer_start 12]\<rparr>"
  using one_press_from_mode_three
    [of "\<lparr>led_timer = None, button_press_count = 3, last_interrupt_time_ms = 3000,
          main_task_handle = Some 7, notification = 0, calls = []\<rparr>"
        "\<lparr>tick_count = 400, tick_period_ms = 10, task_lookup = Some 7,
          driver = \<lparr>new_timer_ret = Some 12, register_ret = True, set_alarm_ret = True,
                    enable_ret = True, start_ret = True\<rparr>\<rparr>" 7 12]
  by (simp add: debounce_time_ms_def press_time_def driver_ok_def release_calls_def
      del: run_presses.simps)

section \<open>The mode after a number of presses\<close>

lemma run_presses_modes:
  assumes "all_accepted (last_interrupt_time_ms st) ps"
    and "list_all press_ok ps"
    and "notification st = 0"
    and "unat (button_press_count st) < 4"
    and "led_timer st = None \<longrightarrow> programmed_period (calls st) = None"
  shows "\<exists>st'. run_presses ps st = Inr st' \<and>
     unat (button_press_count st') = (unat (button_press_count st) + length ps) mod 4 \<and>
     (ps \<noteq> [] \<longrightarrow>
        programmed_period (calls st') =
          (if (unat (button_press_count st) + length ps) mod 4 < 3
           then Some (timer_periods ! ((unat (button_press_count st) + length ps) mod 4))
           else None) \<and>
        (led_timer st' = None) = (\<not> (unat (button_press_count st) + length ps) mod 4 < 3))"
  using assms
proof (induction ps arbitrary: st)
  case Nil
  then show ?case by simp
next
  case (Cons p ps)
  let ?c = "button_press_count st"
  from Cons.prems(2) obtain h mt where
    drv: "driver_ok (driver p)" "new_timer_ret (driver p) = Some h" and
    task: "(if main_task_handle st = None then task_lookup p else main_task_handle st) =
      Some mt"
    by (cases "main_task_handle st") (auto simp: press_ok_def driver_ok_def)
  from Cons.prems(1) have acc: "debounce_time_ms < press_time p - last_interrupt_time_ms st"
    and rest: "all_accepted (press_time p) ps"
    by simp_all
  define st2 where "st2 =
    st\<lparr>led_timer := (if advance ?c < 3 then Some h else None),
       button_press_count := advance ?c,
       last_interrupt_time_ms := press_time p,
       main_task_handle := Some mt,
       notification := 0,
       calls := calls st @ [VTaskNotifyGiveFromISR mt] @ pulse_calls @
                release_calls (led_timer st) @
                (if advance ?c < 3 then setup_calls h (advance ?c) else [])\<rparr>"
  have run: "run_presses (p # ps) st = run_presses ps st2"
    unfolding st2_def by (rule press_round [OF acc Cons.prems(3) task drv])
  have count2: "unat (button_press_count st2) = (unat ?c + 1) mod 4"
    by (simp add: st2_def unat_advance)
  have less3: "(advance ?c < 3) = ((unat ?c + 1) mod 4 < 3)"
    by (simp add: word_less_nat_alt unat_advance)
  have prog2: "programmed_period (calls st2) =
      (if (unat ?c + 1) mod 4 < 3 then Some (timer_periods ! ((unat ?c + 1) mod 4)) else None)"
    using programmed_after_round [OF Cons.prems(5), of mt "advance ?c" h]
    by (simp add: st2_def less3 unat_advance)
  have timer2: "(led_timer st2 = None) = (\<not> (unat ?c + 1) mod 4 < 3)"
    by (simp add: st2_def less3)
  have "\<exists>st'. run_presses ps st2 = Inr st' \<and>
     unat (button_press_count st') = (unat (button_press_count st2) + length ps) mod 4 \<and>
     (ps \<noteq> [] \<longrightarrow>
        programmed_period (calls st') =
          (if (unat (button_press_count st2) + length ps) mod 4 < 3
           then Some (timer_periods ! ((unat (button_press_count st2) + length ps) mod 4))
           else None) \<and>
        (led_timer st' = None) = (\<not> (unat (button_press_count st2) + length ps) mod 4 < 3))"
  proof (rule Cons.IH)
    show "all_accepted (last_interrupt_time_ms st2) ps"
      using rest by (simp add: st2_def)
    show "list_all press_ok ps"
      using Cons.prems(2) by simp
    show "notification st2 = 0"
      by (simp add: st2_def)
    show "unat (button_press_count st2) < 4"
      by (simp add: count2)
    show "led_timer st2 = None \<longrightarrow> programmed_period (calls st2) = None"
      using prog2 timer2 by simp
  qed
  then obtain st' where
    all: "run_presses ps st2 = Inr st' \<and>
     unat (button_press_count st') = (unat (button_press_count st2) + length ps) mod 4 \<and>
     (ps \<noteq> [] \<longrightarrow>
        programmed_period (calls st') =
          (if (unat (button_press_count st2) + length ps) mod 4 < 3
           then Some (timer_periods ! ((unat (button_press_count st2) + length ps) mod 4))
           else None) \<and>
        (led_timer st' = None) = (\<not> (unat (button_press_count st2) + length ps) mod 4 < 3))"
    ..
  note r = all [THEN conjunct1]
  note c = all [THEN conjunct2, THEN conjunct1]
  note m = all [THEN conjunct2, THEN conjunct2]
  have shift: "(unat (button_press_count st2) + length ps) mod 4 =
      (unat ?c + length (p # ps)) mod 4"
    unfolding count2 by (simp add: mod_simps)
  show ?case
  proof (cases "ps = []")
    case True
    with r have "st' = st2"
      by simp
    with r run True count2 prog2 timer2 show ?thesis
      by simp
  next
    case False
    with m have m': "programmed_period (calls st') =
          (if (unat ?c + length (p # ps)) mod 4 < 3
           then Some (timer_periods ! ((unat ?c + length (p # ps)) mod 4))
           else None) \<and>
        (led_timer st' = None) = (\<not> (unat ?c + length (p # ps)) mod 4 < 3)"
      unfolding shift by simp
    from c have c': "unat (button_press_count st') = (unat ?c + length (p # ps)) mod 4"
      unfolding shift .
    from r run c' m' show ?thesis
      by simp
  qed
qed

text \<open>
  C10: in the hardware-timer program the counter is 0 at start-up and the interrupt
  handler advances it before \<open>main_task\<close> looks the mode up. After k accepted presses,
  each followed by its round of \<open>main_task\<close> with the driver succeeding, the counter is
  k mod 4 and the mode applied last is the table entry k mod 4: the first press programs
  entry 1 (period 250,000), the third press reaches entry 3 (no timer), the fourth
  entry 0 (period 500,000).
\<close>

theorem cyclic_mode_after_presses:
  assumes "all_accepted 0 ps"
    and "list_all press_ok ps"
  shows "button_press_count app_main_blinker = 0 \<and>
         (case run_presses ps app_main_blinker of
            Inl a \<Rightarrow> False
          | Inr st \<Rightarrow>
              button_press_count st = of_nat (length ps mod 4) \<and>
              (ps \<noteq> [] \<longrightarrow>
                 programmed_period (calls st) =
                   (if length ps mod 4 = 3 then None
                    else Some (timer_periods ! (length ps mod 4))) \<and>
                 (led_timer st = None) = (length ps mod 4 = 3)) \<and>
              (length ps = 1 \<longrightarrow> programmed_period (calls st) = Some 250000) \<and>
              (length ps = 3 \<longrightarrow> programmed_period (calls st) = None \<and> led_timer st = None) \<and>
              (length ps = 4 \<longrightarrow> programmed_period (calls st) = Some 500000))"
proof -
  have "\<exists>st'. run_presses ps app_main_blinker = Inr st' \<and>
     unat (button_press_count st') =
       (unat (button_press_count app_main_blinker) + length ps) mod 4 \<and>
     (ps \<noteq> [] \<longrightarrow>
        programmed_period (calls st') =
          (if (unat (button_press_count app_main_blinker) + length ps) mod 4 < 3
           then Some (timer_periods !
                  ((unat (button_press_count app_main_blinker) + length ps) mod 4))
           else None) \<and>
        (led_timer st' = None) =
          (\<not> (unat (button_press_count app_main_blinker) + length ps) mod 4 < 3))"
  proof (rule run_presses_modes)
    show "all_accepted (last_interrupt_time_ms app_main_blinker) ps"
      using assms(1) by (simp add: app_main_blinker_def)
    show "list_all press_ok ps"
      by (rule assms(2))
    show "notification app_main_blinker = 0"
      by (simp add: app_main_blinker_def)
    show "unat (button_press_count app_main_blinker) < 4"
      by (simp add: app_main_blinker_def)
    show "led_timer app_main_blinker = None \<longrightarrow>
        programmed_period (calls app_main_blinker) = None"
      by (simp add: app_main_blinker_def programmed_period_def)
  qed
  then obtain st' where
    all: "run_presses ps app_main_blinker = Inr st' \<and>
     unat (button_press_count st') =
       (unat (button_press_count app_main_blinker) + length ps) mod 4 \<and>
     (ps \<noteq> [] \<longrightarrow>
        programmed_period (calls st') =
          (if (unat (button_press_count app_main_blinker) + length ps) mod 4 < 3
           then Some (timer_periods !
                  ((unat (button_press_count app_main_blinker) + length ps) mod 4))
           else None) \<and>
        (led_timer st' = None) =
          (\<not> (unat (button_press_count app_main_blinker) + length ps) mod 4 < 3))"
    ..
  have zero: "unat (button_press_count app_main_blinker) = 0"
    by (simp add: app_main_blinker_def)
  note r = all [THEN conjunct1]
  have c: "unat (button_press_count st') = length ps mod 4"
    using all [THEN conjunct2, THEN conjunct1] unfolding zero by simp
  have lt: "(length ps mod 4 < 3) = (length ps mod 4 \<noteq> 3)"
    by presburger
  have m: "ps \<noteq> [] \<longrightarrow>
      programmed_period (calls st') =
        (if length ps mod 4 = 3 then None else Some (timer_periods ! (length ps mod 4))) \<and>
      (led_timer st' = None) = (length ps mod 4 = 3)"
    using all [THEN conjunct2, THEN conjunct2] unfolding zero by (simp add: lt)
  have "(of_nat (unat (button_press_count st')) :: uint8_t) = button_press_count st'"
    by simp
  then have cnt: "button_press_count st' = of_nat (length ps mod 4)"
    unfolding c by (rule sym)
  have one: "length ps = 1 \<longrightarrow> programmed_period (calls st') = Some 250000"
    using m by (auto simp: timer_periods_def)
  have three: "length ps = 3 \<longrightarrow> programmed_period (calls st') = None \<and> led_timer st' = None"
    using m by auto
  have four: "length ps = 4 \<longrightarrow> programmed_period (calls st') = Some 500000"
    using m by (auto simp: timer_periods_def)
  have start: "button_press_count app_main_blinker = 0"
    by (simp add: app_main_blinker_def)
  from start cnt m one three four show ?thesis
    unfolding r by (simp only: sum.case simp_thms)
qed

theorem cyclic_mode_after_presses_witness:
  "all_accepted 0
     [\<lparr>tick_count = 100, tick_period_ms = 1, task_lookup = Some 7,
       driver = \<lparr>new_timer_ret = Some 11, register_ret = True, set_alarm_ret = True,
                 enable_ret = True, start_ret = True\<rparr>\<rparr>] \<and>
   list_all press_ok
     [\<lparr>tick_count = 100, tick_period_ms = 1, task_lookup = Some 7,
       driver = \<lparr>new_timer_ret = Some 11, register_ret = True, set_alarm_ret = True,
                 enable_ret = True, start_ret = True\<rparr>\<rparr>] \<and>
   (case run_presses
           [\<lparr>tick_count = 100, tick_period_ms = 1, task_lookup = Some 7,
             driver = \<lparr>new_timer_ret = Some 11, register_ret = True, set_alarm_ret = True,
                       enable_ret = True, start_ret = True\<rparr>\<rparr>] app_main_blinker of
      Inl a \<Rightarrow> False
    | Inr st \<Rightarrow>
        button_press_count st = 1 \<and> programmed_period (calls st) = Some 250000)"
proof -
  let ?ps = "[\<lparr>tick_count = 100, tick_period_ms = 1, task_lookup = Some 7,
       driver = \<lparr>new_timer_ret = Some 11, register_ret = True, set_alarm_ret = True,
                 enable_ret = True, start_ret = True\<rparr>\<rparr>]"
  have h1: "all_accepted 0 ?ps"
    by (simp add: press_time_def debounce_time_ms_def)
  have h2: "list_all press_ok ?ps"
    by (simp add: press_ok_def driver_ok_def)
  have "case run_presses ?ps app_main_blinker of
      Inl a \<Rightarrow> False
    | Inr st \<Rightarrow>
        button_press_count st = 1 \<and> programmed_period (calls st) = Some 250000"
    using cyclic_mode_after_presses [OF h1 h2]
    by (cases "run_presses ?ps app_main_blinker")
      (simp_all add: timer_periods_def del: run_presses.simps)
  with h1 h2 show ?thesis
    by (simp only: simp_thms)
qed

end
